theory Spec2Isabelle
  imports Main "HOL-Library.List_Lexorder" "HOL-Library.Char_ord"
begin

section \<open>Strings as Python handles them\<close>

text \<open>
  A Python \<open>str\<close> is modelled as a \<open>string\<close> whose characters are the code points
  below 256. File names, ids and document text are all of this type; \<open>bytes\<close> values
  (image blobs) are strings too.
\<close>

text \<open>\<open>c.lower()\<close> on one code point: ASCII and Latin-1 capitals move up by 32.\<close>

definition char_lower :: "char \<Rightarrow> char" where
  "char_lower c =
     (let n = (of_char c :: nat)
      in if (65 \<le> n \<and> n \<le> 90) \<or> (192 \<le> n \<and> n \<le> 214) \<or> (216 \<le> n \<and> n \<le> 222)
         then char_of (n + 32) else c)"

definition str_lower :: "string \<Rightarrow> string" where
  "str_lower s = map char_lower s"

text \<open>\<open>s.rsplit(c, 1)[1]\<close> for a one-character separator that occurs in \<open>s\<close>.\<close>

definition rsplit_last :: "char \<Rightarrow> string \<Rightarrow> string" where
  "rsplit_last c s = rev (takeWhile (\<lambda>x. x \<noteq> c) (rev s))"

text \<open>\<open>s.startswith(p)\<close> and \<open>p in s\<close>.\<close>

fun starts_with :: "string \<Rightarrow> string \<Rightarrow> bool" where
  "starts_with [] s = True"
| "starts_with (p # ps) [] = False"
| "starts_with (p # ps) (c # cs) = (p = c \<and> starts_with ps cs)"

fun str_contains :: "string \<Rightarrow> string \<Rightarrow> bool" where
  "str_contains p [] = (p = [])"
| "str_contains p (c # cs) = (starts_with p (c # cs) \<or> str_contains p cs)"

text \<open>\<open>s.rsplit(sep, 1)[0]\<close>: the text before the last occurrence of \<open>sep\<close>
  (all of \<open>s\<close> when \<open>sep\<close> does not occur).\<close>

fun rsplit_head :: "string \<Rightarrow> string \<Rightarrow> string" where
  "rsplit_head sep [] = []"
| "rsplit_head sep (c # cs) =
     (if str_contains sep cs then c # rsplit_head sep cs
      else if starts_with sep (c # cs) then [] else c # cs)"

text \<open>\<open>str(n)\<close> for a non-negative integer, as an f-string formats it.\<close>

fun str_of_nat :: "nat \<Rightarrow> string" where
  "str_of_nat n =
     (if n < 10 then [''0123456789'' ! n]
      else str_of_nat (n div 10) @ [''0123456789'' ! (n mod 10)])"

declare str_of_nat.simps [simp del]

text \<open>\<open>str.isspace\<close> on one code point below 256, and \<open>s.strip()\<close>.\<close>

definition is_space :: "char \<Rightarrow> bool" where
  "is_space c = ((of_char c :: nat) \<in> {9, 10, 11, 12, 13, 28, 29, 30, 31, 32, 133, 160})"

definition str_strip :: "string \<Rightarrow> string" where
  "str_strip s = rev (dropWhile is_space (rev (dropWhile is_space s)))"

text \<open>\<open>sep.join(xs)\<close>.\<close>

fun py_join :: "string \<Rightarrow> string list \<Rightarrow> string" where
  "py_join sep [] = []"
| "py_join sep [x] = x"
| "py_join sep (x # y # ys) = x @ sep @ py_join sep (y # ys)"

text \<open>\<open>os.path.basename(path)\<close> on POSIX: the text after the last slash.\<close>

definition basename :: "string \<Rightarrow> string" where
  "basename path = rev (takeWhile (\<lambda>x. x \<noteq> CHR ''/'') (rev path))"

text \<open>\<open>range(i, stop, step)\<close> as a list, and the slice \<open>s[i:j]\<close> for \<open>0 \<le> i \<le> j\<close>.\<close>

function py_range :: "nat \<Rightarrow> nat \<Rightarrow> nat \<Rightarrow> nat list" where
  "py_range i stop step =
     (if step = 0 \<or> stop \<le> i then [] else i # py_range (i + step) stop step)"
  by pat_completeness auto
termination
  by (relation "measure (\<lambda>(i, stop, step). stop - i)") auto

declare py_range.simps [simp del]

definition py_slice :: "'a list \<Rightarrow> nat \<Rightarrow> nat \<Rightarrow> 'a list" where
  "py_slice s i j = take (j - i) (drop i s)"

section \<open>\<open>allowed_file\<close>\<close>

definition ALLOWED_EXTENSIONS :: "string list" where
  "ALLOWED_EXTENSIONS = [''docx'']"

definition allowed_file :: "string \<Rightarrow> bool" where
  "allowed_file filename =
     (CHR ''.'' \<in> set filename \<and>
      str_lower (rsplit_last CHR ''.'' filename) \<in> set ALLOWED_EXTENSIONS)"

section \<open>The data model\<close>

text \<open>
  Metadata is a dynamic map in the source, read by key with defaults. The three keys the
  program writes are the fields here; an absent key is \<open>None\<close>.
\<close>

record meta =
  m_source :: "string option"
  m_processed :: "bool option"
  m_type :: "string option"

record entry =
  eid :: string
  document :: string
  metadata :: meta

datatype error =
  ParseError | IndexWriteError | FileError | DecodeError | VisionError | KeyError
  | QueryError | CompletionError

text \<open>A parsed document: paragraph texts and the relationships of the main part, in
  declared order. A relationship carries its target reference and what
  \<open>rel.target_part.blob\<close> gives: the target's bytes, or the error raised on reaching them
  (a relationship to an external target has no part).\<close>

record rel =
  target_ref :: string
  blob :: "error + string"

record docx =
  paragraphs :: "string list"
  rels :: "rel list"

text \<open>What a stored upload is to the parser: a document, or a file it rejects.\<close>

datatype upload = Docx docx | Corrupt

text \<open>Calls that leave the process or change durable state, in the order they are made.
  \<open>EvVision d b\<close> is the call of \<open>describe_image\<close> on \<open>b\<close> made while the artifact of
  entry \<open>d\<close> is handled.\<close>

datatype event =
  EvAdd "string list" "string list" "meta list"
  | EvUpdate string string meta
  | EvWrite string
  | EvUnlink string
  | EvVision string string

text \<open>
  The durable state: the collection, the \<open>image_queue\<close> directory (file name and bytes,
  in the order the operating system lists the directory), the \<open>uploaded_docs\<close>
  directory, and the calls made so far.
\<close>

record state =
  index :: "entry list"
  queue :: "(string \<times> string) list"
  uploads :: "(string \<times> upload) list"
  trace :: "event list"

text \<open>
  The outcomes of the collaborators, which the program does not control: whether an
  index write, the opening of a file for writing or an unlink raises, what Pillow makes
  of an image, what the
  vision model answers, what werkzeug makes of a file name, what the similarity query
  returns, and what the completion model streams (the content of each chunk, \<open>None\<close>
  for a chunk without choices or content, and the error that ends the stream early).
\<close>

record env =
  add_outcome :: "string list \<Rightarrow> string list \<Rightarrow> meta list \<Rightarrow> error option"
  update_outcome :: "string \<Rightarrow> string \<Rightarrow> meta \<Rightarrow> error option"
  open_outcome :: "string \<Rightarrow> error option"
  unlink_outcome :: "string \<Rightarrow> error option"
  image_outcome :: "string \<Rightarrow> error + string"
  vision_outcome :: "string \<Rightarrow> error + string"
  secure_filename :: "string \<Rightarrow> string"
  query_outcome :: "string \<Rightarrow> error + string list"
  completion_outcome :: "string \<Rightarrow> error + (string option list \<times> error option)"

section \<open>The collection\<close>

text \<open>
  Modelled from the spec: the vector store is an external library, described as a
  mapping from entry id to entry with unique ids. \<open>get\<close> by id and by source filter,
  \<open>add\<close> (an id already present is left as it is) and \<open>update\<close> (only an id that
  is present) are the operations the program calls.
\<close>

definition coll_lookup :: "entry list \<Rightarrow> string \<Rightarrow> entry option" where
  "coll_lookup idx i = find (\<lambda>e. eid e = i) idx"

definition coll_get_id :: "entry list \<Rightarrow> string \<Rightarrow> meta list" where
  "coll_get_id idx i =
     (case coll_lookup idx i of None \<Rightarrow> [] | Some e \<Rightarrow> [metadata e])"

definition coll_get_source_ids :: "entry list \<Rightarrow> string \<Rightarrow> string list" where
  "coll_get_source_ids idx src =
     map eid (filter (\<lambda>e. m_source (metadata e) = Some src) idx)"

definition coll_insert :: "entry \<Rightarrow> entry list \<Rightarrow> entry list" where
  "coll_insert e idx = (if eid e \<in> set (map eid idx) then idx else idx @ [e])"

definition coll_add :: "entry list \<Rightarrow> string list \<Rightarrow> string list \<Rightarrow> meta list \<Rightarrow> entry list" where
  "coll_add idx ids docs metas =
     fold coll_insert
       (map (\<lambda>(i, d, m). \<lparr>eid = i, document = d, metadata = m\<rparr>) (zip ids (zip docs metas)))
       idx"

definition coll_update :: "entry list \<Rightarrow> string \<Rightarrow> string \<Rightarrow> meta \<Rightarrow> entry list" where
  "coll_update idx i d m =
     map (\<lambda>e. if eid e = i then e\<lparr>document := d, metadata := m\<rparr> else e) idx"

text \<open>\<open>self.collection.add(...)\<close> and \<open>self.collection.update(...)\<close> as calls that may
  raise: the call is recorded, and the index changes only when it does not raise.\<close>

definition collection_add ::
  "env \<Rightarrow> state \<Rightarrow> string list \<Rightarrow> string list \<Rightarrow> meta list \<Rightarrow> state \<times> error option" where
  "collection_add en s ids docs metas =
     (let s1 = s\<lparr>trace := trace s @ [EvAdd ids docs metas]\<rparr>
      in case add_outcome en ids docs metas of
           Some e \<Rightarrow> (s1, Some e)
         | None \<Rightarrow> (s1\<lparr>index := coll_add (index s) ids docs metas\<rparr>, None))"

definition collection_update ::
  "env \<Rightarrow> state \<Rightarrow> string \<Rightarrow> string \<Rightarrow> meta \<Rightarrow> state \<times> error option" where
  "collection_update en s i d m =
     (let s1 = s\<lparr>trace := trace s @ [EvUpdate i d m]\<rparr>
      in case update_outcome en i d m of
           Some e \<Rightarrow> (s1, Some e)
         | None \<Rightarrow> (s1\<lparr>index := coll_update (index s) i d m\<rparr>, None))"

section \<open>The queue directory\<close>

text \<open>\<open>open(name, "wb")\<close> then \<open>write\<close>: an existing file is replaced where it stands.
  Where a directory lists a new file is the file system's choice; here it is listed last,
  and nothing proved below depends on the place.\<close>

definition write_file :: "(string \<times> 'a) list \<Rightarrow> string \<Rightarrow> 'a \<Rightarrow> (string \<times> 'a) list" where
  "write_file dir name b =
     (if name \<in> set (map fst dir)
      then map (\<lambda>(n, c). if n = name then (n, b) else (n, c)) dir
      else dir @ [(name, b)])"

text \<open>\<open>queue_dir.glob("*.png")\<close>: the names ending in \<open>.png\<close>, in listing order.\<close>

definition glob_png :: "(string \<times> string) list \<Rightarrow> string list" where
  "glob_png dir = filter (\<lambda>n. starts_with (rev ''.png'') (rev n)) (map fst dir)"

text \<open>\<open>Path.stem\<close>: the name without its last suffix; a dot that starts or ends the name
  begins no suffix.\<close>

definition stem :: "string \<Rightarrow> string" where
  "stem name =
     (let after = rev (takeWhile (\<lambda>x. x \<noteq> CHR ''.'') (rev name));
          i = length name - length after - 1
      in if CHR ''.'' \<in> set name \<and> 0 < i \<and> after \<noteq> [] then take i name else name)"

text \<open>\<open>img_path.unlink(missing_ok=True)\<close>.\<close>

definition unlink :: "env \<Rightarrow> state \<Rightarrow> string \<Rightarrow> state \<times> error option" where
  "unlink en s name =
     (let s1 = s\<lparr>trace := trace s @ [EvUnlink name]\<rparr>
      in case unlink_outcome en name of
           Some e \<Rightarrow> (s1, Some e)
         | None \<Rightarrow> (s1\<lparr>queue := filter (\<lambda>(n, c). n \<noteq> name) (queue s)\<rparr>, None))"

section \<open>Ingestion: \<open>process_docx\<close>\<close>

text \<open>\<open>DocxDocument(path)\<close>: the parser raises on a missing or rejected file.\<close>

definition DocxDocument :: "(string \<times> upload) list \<Rightarrow> string \<Rightarrow> error + docx" where
  "DocxDocument dir path =
     (case map_of dir path of
        None \<Rightarrow> Inl ParseError
      | Some Corrupt \<Rightarrow> Inl ParseError
      | Some (Docx d) \<Rightarrow> Inr d)"

text \<open>\<open>"\n".join(p.text for p in doc.paragraphs if p.text.strip())\<close>\<close>

definition extract_text :: "string list \<Rightarrow> string" where
  "extract_text ps = py_join ''\<newline>'' (filter (\<lambda>p. str_strip p \<noteq> []) ps)"

text \<open>\<open>[text[i:i+2000] for i in range(0, len(text), 1800)]\<close>\<close>

definition chunks_of :: "string \<Rightarrow> string list" where
  "chunks_of text = map (\<lambda>i. py_slice text i (i + 2000)) (py_range 0 (length text) 1800)"

definition text_ids :: "string \<Rightarrow> nat \<Rightarrow> string list" where
  "text_ids file_name n = map (\<lambda>i. file_name @ ''_t_'' @ str_of_nat i) [0..<n]"

definition text_meta :: "string \<Rightarrow> meta" where
  "text_meta file_name =
     \<lparr>m_source = Some file_name, m_processed = None, m_type = Some ''text''\<rparr>"

definition image_meta :: "string \<Rightarrow> meta" where
  "image_meta file_name =
     \<lparr>m_source = Some file_name, m_processed = Some False, m_type = Some ''image''\<rparr>"

definition placeholder :: string where
  "placeholder = ''[Image queued for analysis]''"

text \<open>The body of the loop for one image relationship. \<open>open\<close> creates the file (or
  empties an existing one) before \<open>rel.target_part.blob\<close> is evaluated, so an error
  raised there leaves an empty artifact behind.\<close>

definition queue_image :: "env \<Rightarrow> string \<Rightarrow> rel \<Rightarrow> nat \<Rightarrow> state \<Rightarrow> state \<times> error option" where
  "queue_image en file_name r img_index s =
     (let img_id = file_name @ ''_img_'' @ str_of_nat img_index;
          fname = img_id @ ''.png'';
          s1 = s\<lparr>trace := trace s @ [EvWrite fname]\<rparr>
      in case open_outcome en fname of
           Some e \<Rightarrow> (s1, Some e)
         | None \<Rightarrow>
             (case blob r of
                Inl e \<Rightarrow> (s1\<lparr>queue := write_file (queue s) fname []\<rparr>, Some e)
              | Inr image_bytes \<Rightarrow>
                  collection_add en (s1\<lparr>queue := write_file (queue s) fname image_bytes\<rparr>)
                    [img_id] [placeholder] [image_meta file_name]))"

text \<open>The loop over \<open>doc.part.rels.values()\<close>, with \<open>img_index\<close> as it stands.\<close>

fun ingest_images :: "env \<Rightarrow> string \<Rightarrow> rel list \<Rightarrow> nat \<Rightarrow> state \<Rightarrow> state \<times> error option" where
  "ingest_images en file_name [] img_index s = (s, None)"
| "ingest_images en file_name (r # rs) img_index s =
     (if str_contains ''image'' (target_ref r) then
        (case queue_image en file_name r img_index s of
           (s2, Some e) \<Rightarrow> (s2, Some e)
         | (s2, None) \<Rightarrow> ingest_images en file_name rs (Suc img_index) s2)
      else ingest_images en file_name rs img_index s)"

definition process_docx :: "env \<Rightarrow> state \<Rightarrow> string \<Rightarrow> state \<times> error option" where
  "process_docx en s path =
     (case DocxDocument (uploads s) path of
        Inl e \<Rightarrow> (s, Some e)
      | Inr doc \<Rightarrow>
          (let file_name = basename path
           in if coll_get_source_ids (index s) file_name \<noteq> [] then (s, None)
              else
                (let text = extract_text (paragraphs doc);
                     chunks = chunks_of text
                 in case collection_add en s (text_ids file_name (length chunks)) chunks
                           (replicate (length chunks) (text_meta file_name)) of
                      (s1, Some e) \<Rightarrow> (s1, Some e)
                    | (s1, None) \<Rightarrow> ingest_images en file_name (rels doc) 0 s1)))"

section \<open>The vision worker\<close>

text \<open>\<open>prepare_image_for_vision\<close> opens, converts and re-encodes the image with Pillow;
  \<open>describe_image\<close> returns the stripped content of the model's reply.\<close>

definition prepare_image_for_vision :: "env \<Rightarrow> string \<Rightarrow> error + string" where
  "prepare_image_for_vision en image_bytes = image_outcome en image_bytes"

definition describe_image :: "env \<Rightarrow> string \<Rightarrow> error + string" where
  "describe_image en image_b64 =
     (case vision_outcome en image_b64 of
        Inl e \<Rightarrow> Inl e
      | Inr content \<Rightarrow> Inr (str_strip content))"

text \<open>What one pass of the loop body did with an artifact. \<open>Failed e\<close> is the
  \<open>except\<close> branch: the exception is printed and the loop goes on.\<close>

datatype outcome = Orphan | Cleaned | Analysed | Failed error

text \<open>The truth value of \<open>meta.get("processed")\<close>.\<close>

definition is_processed :: "meta \<Rightarrow> bool" where
  "is_processed m = (m_processed m = Some True)"

text \<open>The body of the \<open>try\<close> from the read of the file on, for an entry found and
  not processed.\<close>

definition analyse :: "env \<Rightarrow> state \<Rightarrow> string \<Rightarrow> string \<Rightarrow> meta \<Rightarrow> state \<times> outcome" where
  "analyse en s img_path doc_id m =
     (case map_of (queue s) img_path of
        None \<Rightarrow> (s, Failed FileError)
      | Some image_bytes \<Rightarrow>
          (case prepare_image_for_vision en image_bytes of
             Inl e \<Rightarrow> (s, Failed e)
           | Inr image_b64 \<Rightarrow>
               (let s1 = s\<lparr>trace := trace s @ [EvVision doc_id image_b64]\<rparr>
                in case describe_image en image_b64 of
                     Inl e \<Rightarrow> (s1, Failed e)
                   | Inr description \<Rightarrow>
                       (case m_source m of
                          None \<Rightarrow> (s1, Failed KeyError)
                        | Some src \<Rightarrow>
                            (case collection_update en s1 doc_id description
                                    \<lparr>m_source = Some src, m_processed = Some True,
                                     m_type = Some ''image''\<rparr> of
                               (s2, Some e) \<Rightarrow> (s2, Failed e)
                             | (s2, None) \<Rightarrow>
                                 (case unlink en s2 img_path of
                                    (s3, Some e) \<Rightarrow> (s3, Failed e)
                                  | (s3, None) \<Rightarrow> (s3, Analysed)))))))"

text \<open>The loop body for one \<open>img_path\<close>.\<close>

definition visit :: "env \<Rightarrow> state \<Rightarrow> string \<Rightarrow> state \<times> outcome" where
  "visit en s img_path =
     (let doc_id = stem img_path
      in case coll_get_id (index s) doc_id of
           [] \<Rightarrow> (s, Orphan)
         | m # _ \<Rightarrow>
             if is_processed m then
               (case unlink en s img_path of
                  (s1, Some e) \<Rightarrow> (s1, Failed e)
                | (s1, None) \<Rightarrow> (s1, Cleaned))
             else analyse en s img_path doc_id m)"

text \<open>\<open>for img_path in images\<close>: every listed artifact in turn.\<close>

fun sweep_over :: "env \<Rightarrow> string list \<Rightarrow> state \<Rightarrow> state \<times> (string \<times> outcome) list" where
  "sweep_over en [] s = (s, [])"
| "sweep_over en (p # ps) s =
     (case visit en s p of
        (s1, out) \<Rightarrow>
          (case sweep_over en ps s1 of (s2, outs) \<Rightarrow> (s2, (p, out) # outs)))"

text \<open>One turn of \<open>while True\<close>: list the directory, sweep it, sleep.\<close>

definition sweep :: "env \<Rightarrow> state \<Rightarrow> state \<times> (string \<times> outcome) list" where
  "sweep en s = sweep_over en (glob_png (queue s)) s"

text \<open>The loop never returns; this is the state after one turn for each element of
  \<open>ens\<close>, the collaborators' outcomes during that turn.\<close>

fun vision_worker :: "env list \<Rightarrow> state \<Rightarrow> state" where
  "vision_worker [] s = s"
| "vision_worker (en # ens) s = vision_worker ens (fst (sweep en s))"

section \<open>\<open>/queue-status\<close>\<close>

record current_image =
  filename :: string
  source_doc :: string

record status =
  pending_images :: nat
  total_images :: nat
  processed_images :: nat
  is_processing :: bool
  current :: "current_image option"

text \<open>The loop over \<open>pending_images\<close> up to its \<open>break\<close>.\<close>

fun find_current :: "entry list \<Rightarrow> string list \<Rightarrow> current_image option" where
  "find_current idx [] = None"
| "find_current idx (p # ps) =
     (case coll_get_id idx (stem p) of
        [] \<Rightarrow> find_current idx ps
      | m # _ \<Rightarrow>
          if is_processed m then find_current idx ps
          else Some \<lparr>filename = p,
                     source_doc = (if str_contains ''_img_'' (stem p)
                                   then rsplit_head ''_img_'' (stem p) else ''Unknown'')\<rparr>)"

definition queue_status :: "state \<Rightarrow> status" where
  "queue_status s =
     (let pending = sort (glob_png (queue s));
          all_metadata = map metadata (index s)
      in \<lparr>pending_images = length pending,
          total_images = length (filter (\<lambda>m. m_type m = Some ''image'') all_metadata),
          processed_images =
            length (filter (\<lambda>m. m_type m = Some ''image'' \<and> is_processed m) all_metadata),
          is_processing = (0 < length pending),
          current = find_current (index s) pending\<rparr>)"

text \<open>The artifact the worker's next sweep submits first: the first, in the order the
  sweep visits, that the loop body neither skips nor cleans up.\<close>

definition worker_next :: "state \<Rightarrow> string option" where
  "worker_next s =
     find (\<lambda>p. case coll_get_id (index s) (stem p) of [] \<Rightarrow> False | m # _ \<Rightarrow> \<not> is_processed m)
       (glob_png (queue s))"

section \<open>\<open>/upload\<close>\<close>

datatype call = CallQuery string | CallCompletion string

text \<open>What a generator did when the server ran it: the frames it yielded, the exception
  that ended it (if one did), and the upstream calls it made.\<close>

record stream_run =
  frames :: "string list"
  raised :: "error option"
  calls :: "call list"

datatype body =
  Message string
  | Error string
  | ErrorOf string error
  | EventStream stream_run

definition UPLOAD_FOLDER :: string where
  "UPLOAD_FOLDER = ''./uploaded_docs''"

text \<open>\<open>os.path.join(a, b)\<close> for \<open>a\<close> without a trailing slash.\<close>

definition os_path_join :: "string \<Rightarrow> string \<Rightarrow> string" where
  "os_path_join a b = (if starts_with ''/'' b then b else a @ ''/'' @ b)"

text \<open>The request's \<open>file\<close> part, when it has one: the client's file name and the
  content. The result is the new state, the status code and the JSON body.\<close>

definition upload_file ::
  "env \<Rightarrow> state \<Rightarrow> (string \<times> upload) option \<Rightarrow> state \<times> nat \<times> body" where
  "upload_file en s file_part =
     (case file_part of
        None \<Rightarrow> (s, 400, Error ''No file part'')
      | Some (fname, content) \<Rightarrow>
          if fname = [] then (s, 400, Error ''No selected file'')
          else if allowed_file fname then
            (let filename = secure_filename en fname;
                 filepath = os_path_join UPLOAD_FOLDER filename;
                 s1 = s\<lparr>uploads := write_file (uploads s) filepath content\<rparr>
             in case process_docx en s1 filepath of
                  (s2, None) \<Rightarrow>
                    (s2, 200,
                     Message (''File '' @ filename @ '' uploaded and processed successfully!''))
                | (s2, Some e) \<Rightarrow> (s2, 500, ErrorOf ''Error processing file: '' e))
          else (s, 400, Error ''Invalid file type. Only .docx files are allowed.''))"

section \<open>\<open>/ask\<close>\<close>

definition stream_prompt :: "string \<Rightarrow> string \<Rightarrow> string" where
  "stream_prompt context question =
     ''You are a specialized LMS Technical Support Assistant. '' @
     ''Your goal is to provide a walkthrough that is impossible to misunderstand.\<newline>\<newline>'' @
     ''CRITICAL FORMATTING RULES:\<newline>'' @
     ''- Use '## 1)' '## 2)' '## 3)' etc. for main steps\<newline>'' @
     ''- Use '1.' '2.' '3.' etc. for sub-steps under each main step\<newline>'' @
     ''- IMPORTANT: Put each sub-step on a NEW LINE (press Enter after each sub-step)\<newline>'' @
     ''- Example format:\<newline>'' @
     ''  ## 1) Main step title\<newline>'' @
     ''  1. First sub-step here.\<newline>'' @
     ''  2. Second sub-step here.\<newline>'' @
     ''  3. Third sub-step here.\<newline>'' @
     ''  ## 2) Next main step\<newline>\<newline>'' @
     ''CONTENT RULES:\<newline>'' @
     ''- For every action, describe the visual icon (e.g., 'the megaphone icon') and its screen location\<newline>'' @
     ''- Use **bold** for important UI elements, colors, and locations\<newline>'' @
     ''- Be conversational but extremely precise\<newline>'' @
     ''- Answer ONLY using the provided context\<newline>'' @
     ''- Use both text documentation AND image descriptions\<newline>\<newline>'' @
     ''CONTEXT:\<newline>'' @ context @ ''\<newline>\<newline>'' @
     ''USER QUESTION: '' @ question"

text \<open>The frames of the loop over the stream: a chunk with content yields one frame.\<close>

fun stream_frames :: "string option list \<Rightarrow> string list" where
  "stream_frames [] = []"
| "stream_frames (None # cs) = stream_frames cs"
| "stream_frames (Some c # cs) =
     (if c = [] then stream_frames cs
      else (''data: '' @ c @ ''\<newline>\<newline>'') # stream_frames cs)"

text \<open>The body of \<open>generate\<close>, which runs when the server iterates the response.\<close>

definition generate :: "env \<Rightarrow> string \<Rightarrow> stream_run" where
  "generate en question =
     (case query_outcome en question of
        Inl e \<Rightarrow> \<lparr>frames = [], raised = Some e, calls = [CallQuery question]\<rparr>
      | Inr documents \<Rightarrow>
          (let context = py_join ''\<newline>\<newline>'' documents;
               prompt = stream_prompt context question
           in case completion_outcome en prompt of
                Inl e \<Rightarrow>
                  \<lparr>frames = [], raised = Some e,
                   calls = [CallQuery question, CallCompletion prompt]\<rparr>
              | Inr (chunks, None) \<Rightarrow>
                  \<lparr>frames = stream_frames chunks @ [''data: [DONE]\<newline>\<newline>''], raised = None,
                   calls = [CallQuery question, CallCompletion prompt]\<rparr>
              | Inr (chunks, Some e) \<Rightarrow>
                  \<lparr>frames = stream_frames chunks, raised = Some e,
                   calls = [CallQuery question, CallCompletion prompt]\<rparr>))"

text \<open>The \<open>try\<close> block of \<open>ask_question\<close>: it defines \<open>generate\<close> and wraps the
  generator object in a response. None of the generator's body runs here, so nothing
  here raises.\<close>

definition ask_try :: "env \<Rightarrow> string \<Rightarrow> error + nat \<times> body" where
  "ask_try en question = Inr (200, EventStream (generate en question))"

text \<open>The JSON body's \<open>question\<close>, when it has one.\<close>

definition ask_question :: "env \<Rightarrow> string option \<Rightarrow> nat \<times> body" where
  "ask_question en data =
     (let question = (case data of None \<Rightarrow> [] | Some q \<Rightarrow> q)
      in if question = [] then (400, Error ''No question provided'')
         else (case ask_try en question of
                 Inr r \<Rightarrow> r
               | Inl e \<Rightarrow> (500, ErrorOf ''Error processing question: '' e)))"

section \<open>Reading the trace\<close>

text \<open>An event is about entry \<open>d\<close> when it submits \<open>d\<close>'s image to the vision model or
  updates \<open>d\<close> in the collection.\<close>

definition touches :: "string \<Rightarrow> event \<Rightarrow> bool" where
  "touches d ev =
     (case ev of EvVision i b \<Rightarrow> i = d | EvUpdate i doc m \<Rightarrow> i = d | _ \<Rightarrow> False)"

section \<open>Example collaborators and states\<close>

text \<open>Collaborators that never fail, and variants in which one of them does.\<close>

definition env_ok :: env where
  "env_ok =
     \<lparr>add_outcome = (\<lambda>ids docs metas. None),
      update_outcome = (\<lambda>i d m. None),
      open_outcome = (\<lambda>name. None),
      unlink_outcome = (\<lambda>name. None),
      image_outcome = (\<lambda>b. Inr (''b64:'' @ b)),
      vision_outcome = (\<lambda>b. Inr ('' screen of '' @ b @ '' '')),
      secure_filename = (\<lambda>name. name),
      query_outcome = (\<lambda>q. Inr []),
      completion_outcome = (\<lambda>p. Inr ([], None))\<rparr>"

definition env_vision_down :: env where
  "env_vision_down =
     env_ok\<lparr>vision_outcome := (\<lambda>b. if b = ''b64:PNGB'' then Inl VisionError
                                   else Inr ('' screen of '' @ b @ '' ''))\<rparr>"

definition env_decode_down :: env where
  "env_decode_down =
     env_ok\<lparr>image_outcome := (\<lambda>b. if b = ''PNGB'' then Inl DecodeError else Inr (''b64:'' @ b))\<rparr>"

definition env_image_add_down :: env where
  "env_image_add_down =
     env_ok\<lparr>add_outcome := (\<lambda>ids docs metas. if docs = [placeholder] then Some IndexWriteError
                                               else None)\<rparr>"

definition env_query_down :: env where
  "env_query_down = env_ok\<lparr>query_outcome := (\<lambda>q. Inl QueryError)\<rparr>"

definition env_add_down :: env where
  "env_add_down = env_ok\<lparr>add_outcome := (\<lambda>ids docs metas. Some IndexWriteError)\<rparr>"

text \<open>Three documents: two paragraphs of text with two screenshots, blank paragraphs
  with one screenshot, and one paragraph of 1900 characters.\<close>

definition manual :: docx where
  "manual =
     \<lparr>paragraphs = [''Open the course page.'', ''  '', ''Press the gear icon.''],
      rels = [\<lparr>target_ref = ''styles.xml'', blob = Inr ''''\<rparr>,
              \<lparr>target_ref = ''media/image1.png'', blob = Inr ''PNG1''\<rparr>,
              \<lparr>target_ref = ''media/image2.png'', blob = Inr ''PNG2''\<rparr>]\<rparr>"

definition blank_manual :: docx where
  "blank_manual =
     \<lparr>paragraphs = [''   '', '''', [CHR 0x09]],
      rels = [\<lparr>target_ref = ''media/image1.png'', blob = Inr ''PNG1''\<rparr>]\<rparr>"

definition long_manual :: docx where
  "long_manual = \<lparr>paragraphs = [replicate 1900 CHR ''a''], rels = []\<rparr>"

text \<open>
  A state in which \<open>a.docx\<close>, \<open>b.docx\<close> and \<open>c.docx\<close> are ingested. The image of
  \<open>c.docx\<close> is analysed but its artifact is still there; the directory lists
  \<open>b\<close>'s artifact before \<open>a\<close>'s, and holds one artifact no entry belongs to.
\<close>

definition demo :: state where
  "demo =
     \<lparr>index =
        [\<lparr>eid = ''a.docx_t_0'', document = ''Open the course page.'',
          metadata = \<lparr>m_source = Some ''a.docx'', m_processed = None, m_type = Some ''text''\<rparr>\<rparr>,
         \<lparr>eid = ''a.docx_img_0'', document = ''[Image queued for analysis]'',
          metadata = \<lparr>m_source = Some ''a.docx'', m_processed = Some False, m_type = Some ''image''\<rparr>\<rparr>,
         \<lparr>eid = ''b.docx_img_0'', document = ''[Image queued for analysis]'',
          metadata = \<lparr>m_source = Some ''b.docx'', m_processed = Some False, m_type = Some ''image''\<rparr>\<rparr>,
         \<lparr>eid = ''c.docx_img_0'', document = ''a grey gear, top right'',
          metadata = \<lparr>m_source = Some ''c.docx'', m_processed = Some True, m_type = Some ''image''\<rparr>\<rparr>],
      queue =
        [(''b.docx_img_0.png'', ''PNGB''), (''ghost_img_0.png'', ''PNGG''),
         (''a.docx_img_0.png'', ''PNGA''), (''c.docx_img_0.png'', ''PNGC'')],
      uploads =
        [(''./uploaded_docs/a.docx'', Docx manual),
         (''./uploaded_docs/manual.docx'', Docx manual),
         (''./uploaded_docs/blank.docx'', Docx blank_manual),
         (''./uploaded_docs/long.docx'', Docx long_manual)],
      trace = []\<rparr>"

definition processed_gear :: entry where
  "processed_gear =
     \<lparr>eid = ''c.docx_img_0'', document = ''a grey gear, top right'',
      metadata = \<lparr>m_source = Some ''c.docx'', m_processed = Some True, m_type = Some ''image''\<rparr>\<rparr>"

section \<open>File names and extensions\<close>

lemma split_at_last:
  "c \<in> set f \<Longrightarrow> \<exists>pre. f = pre @ [c] @ rsplit_last c f"
proof -
  assume "c \<in> set f"
  then have "dropWhile (\<lambda>x. x \<noteq> c) (rev f) \<noteq> []" by (simp add: dropWhile_eq_Nil_conv)
  moreover have "hd (dropWhile (\<lambda>x. x \<noteq> c) (rev f)) = c"
    using calculation hd_dropWhile[of "\<lambda>x. x \<noteq> c" "rev f"] by auto
  ultimately obtain rest where r: "dropWhile (\<lambda>x. x \<noteq> c) (rev f) = c # rest"
    by (cases "dropWhile (\<lambda>x. x \<noteq> c) (rev f)") auto
  have "rev f = takeWhile (\<lambda>x. x \<noteq> c) (rev f) @ c # rest"
    using takeWhile_dropWhile_id[of "\<lambda>x. x \<noteq> c" "rev f"] r by simp
  then have "f = rev (takeWhile (\<lambda>x. x \<noteq> c) (rev f) @ c # rest)"
    by (metis rev_rev_ident)
  then have "f = rev rest @ [c] @ rsplit_last c f" by (simp add: rsplit_last_def)
  then show ?thesis by blast
qed

lemma rsplit_last_no_sep: "c \<notin> set (rsplit_last c f)"
  unfolding rsplit_last_def using set_takeWhileD by fastforce

lemma takeWhile_upto_sep:
  "c \<notin> set xs \<Longrightarrow> takeWhile (\<lambda>x. x \<noteq> c) (xs @ c # ys) = xs"
  by (induction xs) auto

lemma rsplit_last_unique:
  "f = pre @ [c] @ suf \<Longrightarrow> c \<notin> set suf \<Longrightarrow> rsplit_last c f = suf"
proof -
  assume f: "f = pre @ [c] @ suf" and n: "c \<notin> set suf"
  have "takeWhile (\<lambda>x. x \<noteq> c) (rev suf @ c # rev pre) = rev suf"
    using n by (simp add: takeWhile_upto_sep)
  then show ?thesis using f by (simp add: rsplit_last_def)
qed

lemma allowed_file_iff:
  "allowed_file f \<longleftrightarrow> (\<exists>pre suf. f = pre @ [CHR ''.''] @ suf \<and> CHR ''.'' \<notin> set suf \<and> str_lower suf = ''docx'')"
proof
  assume a: "allowed_file f"
  then have d: "CHR ''.'' \<in> set f" and l: "str_lower (rsplit_last CHR ''.'' f) = ''docx''"
    by (simp_all add: allowed_file_def ALLOWED_EXTENSIONS_def)
  from split_at_last[OF d] obtain pre where "f = pre @ [CHR ''.''] @ rsplit_last CHR ''.'' f" by blast
  with l rsplit_last_no_sep show "\<exists>pre suf. f = pre @ [CHR ''.''] @ suf \<and> CHR ''.'' \<notin> set suf \<and> str_lower suf = ''docx''"
    by blast
next
  assume "\<exists>pre suf. f = pre @ [CHR ''.''] @ suf \<and> CHR ''.'' \<notin> set suf \<and> str_lower suf = ''docx''"
  then obtain pre suf where f: "f = pre @ [CHR ''.''] @ suf" and n: "CHR ''.'' \<notin> set suf" and l: "str_lower suf = ''docx''"
    by blast
  have "rsplit_last CHR ''.'' f = suf" using rsplit_last_unique[OF f n] .
  moreover have "CHR ''.'' \<in> set f" using f by simp
  ultimately show "allowed_file f" using l by (simp add: allowed_file_def ALLOWED_EXTENSIONS_def)
qed

lemma upload_code_400:
  "fst (snd (upload_file en s (Some (fname, content)))) = 400 \<longleftrightarrow> \<not> allowed_file fname"
  by (auto simp: upload_file_def allowed_file_def Let_def split: prod.splits option.splits)

lemma upload_rejected_state:
  "\<not> allowed_file fname \<Longrightarrow> fst (upload_file en s (Some (fname, content))) = s"
  by (auto simp: upload_file_def)

section \<open>Chunking\<close>

lemma py_range_closed:
  "0 < step \<Longrightarrow> py_range i stop step = map (\<lambda>k. i + k * step) [0..<(stop - i + step - 1) div step]"
proof (induction i stop step rule: py_range.induct)
  case (1 i stop step)
  show ?case
  proof (cases "stop \<le> i")
    case True
    then show ?thesis using 1(2) by (simp add: py_range.simps)
  next
    case False
    have n: "(stop - i + step - 1) div step = Suc ((stop - (i + step) + step - 1) div step)"
    proof -
      have "stop - i + step - 1 = (stop - i - 1) + step" using False by simp
      then have "(stop - i + step - 1) div step = (stop - i - 1 + step) div step"
        by simp
      also have "\<dots> = Suc ((stop - i - 1) div step)"
        using 1(2) by (simp only: div_add_self2) 
      finally have "(stop - i + step - 1) div step = Suc ((stop - i - 1) div step)" .
      moreover have "(stop - (i + step) + step - 1) div step = (stop - i - 1) div step"
      proof (cases "stop \<le> i + step")
        case True
        then have "stop - i - 1 < step" using False by simp
        then show ?thesis using True 1(2) by simp
      next
        case False
        then have "stop - (i + step) + step - 1 = stop - i - 1" by simp
        then show ?thesis by simp
      qed
      ultimately show ?thesis by simp
    qed
    have "py_range i stop step = i # py_range (i + step) stop step"
      using False 1(2) by (simp add: py_range.simps)
    also have "\<dots> = i # map (\<lambda>k. i + step + k * step) [0..<(stop - (i + step) + step - 1) div step]"
      using 1 False by simp
    also have "\<dots> = map (\<lambda>k. i + k * step) [0..<(stop - i + step - 1) div step]"
      unfolding n by (simp add: upt_rec[of 0 "Suc _"] map_Suc_upt[symmetric] del: upt_Suc add: ac_simps)
    finally show ?thesis .
  qed
qed

lemma length_chunks_of: "length (chunks_of t) = (length t + 1799) div 1800"
  by (simp add: chunks_of_def py_range_closed)

lemma nth_chunks_of:
  "i < length (chunks_of t) \<Longrightarrow> chunks_of t ! i = take 2000 (drop (1800 * i) t)"
  by (simp add: chunks_of_def py_range_closed py_slice_def mult.commute)

lemma chunks_overlap:
  assumes "Suc i < length (chunks_of t)"
  shows "drop 1800 (chunks_of t ! i) = take 200 (chunks_of t ! Suc i)"
    and "length (take 200 (chunks_of t ! Suc i)) = min 200 (length t - 1800 * Suc i)"
proof -
  have i: "i < length (chunks_of t)" using assms by simp
  show "drop 1800 (chunks_of t ! i) = take 200 (chunks_of t ! Suc i)"
    by (simp add: nth_chunks_of[OF i] nth_chunks_of[OF assms] drop_take add.commute)
  show "length (take 200 (chunks_of t ! Suc i)) = min 200 (length t - 1800 * Suc i)"
    by (simp add: nth_chunks_of[OF assms])
qed

lemma concat_windows:
  "concat (map (\<lambda>k. take n (drop (k * n) t)) [0..<m]) = take (m * n) t"
proof (induction m)
  case 0
  then show ?case by simp
next
  case (Suc m)
  have "take (m * n + n) t = take (m * n) t @ take n (drop (m * n) t)"
    by (rule take_add)
  moreover have "Suc m * n = m * n + n" by simp
  ultimately have "take (Suc m * n) t = take (m * n) t @ take n (drop (m * n) t)"
    by (simp only:)
  with Suc show ?case by simp
qed

lemma ceil_window: "(n::nat) \<le> (n + 1799) div 1800 * 1800"
proof -
  have "(n + 1799) div 1800 * 1800 + (n + 1799) mod 1800 = n + 1799"
    by (rule div_mult_mod_eq)
  moreover have "(n + 1799) mod 1800 < 1800" by simp
  ultimately show ?thesis by linarith
qed

lemma chunks_reconstruct: "concat (map (take 1800) (chunks_of t)) = t"
proof -
  have "map (take 1800) (chunks_of t) =
        map (\<lambda>k. take 1800 (drop (k * 1800) t)) [0..<(length t + 1799) div 1800]"
    by (simp add: chunks_of_def py_range_closed py_slice_def comp_def add.commute)
  then have "concat (map (take 1800) (chunks_of t)) = take ((length t + 1799) div 1800 * 1800) t"
    by (simp only: concat_windows)
  also have "\<dots> = t" using ceil_window[of "length t"] by (rule take_all)
  finally show ?thesis .
qed

lemma str_strip_empty: "str_strip p = [] \<longleftrightarrow> (\<forall>c\<in>set p. is_space c)"
proof
  assume "str_strip p = []"
  then have a: "\<forall>x\<in>set (dropWhile is_space p). is_space x"
    by (simp add: str_strip_def dropWhile_eq_Nil_conv)
  have "dropWhile is_space p = []"
  proof (rule ccontr)
    assume n: "dropWhile is_space p \<noteq> []"
    then have "\<not> is_space (hd (dropWhile is_space p))" by (rule hd_dropWhile)
    moreover have "hd (dropWhile is_space p) \<in> set (dropWhile is_space p)" using n by simp
    ultimately show False using a by blast
  qed
  then show "\<forall>c\<in>set p. is_space c" by (simp add: dropWhile_eq_Nil_conv)
next
  assume "\<forall>c\<in>set p. is_space c"
  then have d: "dropWhile is_space p = []" by (simp add: dropWhile_eq_Nil_conv)
  show "str_strip p = []" unfolding str_strip_def d by simp
qed

lemma extract_text_blank:
  "\<forall>p\<in>set ps. \<forall>c\<in>set p. is_space c \<Longrightarrow> extract_text ps = []"
proof -
  assume "\<forall>p\<in>set ps. \<forall>c\<in>set p. is_space c"
  then have "filter (\<lambda>p. str_strip p \<noteq> []) ps = []"
    by (simp add: str_strip_empty filter_empty_conv)
  then show ?thesis by (simp add: extract_text_def)
qed

lemma chunks_of_empty: "chunks_of [] = []"
  by (simp add: chunks_of_def py_range.simps)

lemma text_ids_nth: "i < n \<Longrightarrow> text_ids fn n ! i = fn @ ''_t_'' @ str_of_nat i"
  by (simp add: text_ids_def)

section \<open>What ingestion calls and writes\<close>

lemma collection_add_trace:
  "trace (fst (collection_add en s ids docs metas)) = trace s @ [EvAdd ids docs metas]"
  by (simp add: collection_add_def Let_def split: option.splits)

lemma collection_add_keeps:
  "queue (fst (collection_add en s ids docs metas)) = queue s"
  "uploads (fst (collection_add en s ids docs metas)) = uploads s"
  by (simp_all add: collection_add_def Let_def split: option.splits)

lemma collection_add_failed:
  "collection_add en s ids docs metas = (s', Some e) \<Longrightarrow> index s' = index s"
  by (auto simp: collection_add_def Let_def split: option.splits)

lemma queue_image_trace:
  "\<exists>rest. trace (fst (queue_image en fn r k s)) = trace s @ rest"
  by (auto simp: queue_image_def collection_add_def Let_def split: option.splits sum.splits)

lemma ingest_images_trace:
  "\<exists>rest. trace (fst (ingest_images en fn rs k s)) = trace s @ rest"
proof (induction rs arbitrary: k s)
  case Nil
  then show ?case by simp
next
  case (Cons r rs)
  show ?case
  proof (cases "str_contains ''image'' (target_ref r)")
    case False
    then show ?thesis using Cons.IH by simp
  next
    case True
    obtain s2 r2 where q: "queue_image en fn r k s = (s2, r2)" by (cases "queue_image en fn r k s")
    from queue_image_trace[of en fn r k s] q obtain new where t2: "trace s2 = trace s @ new"
      by auto
    show ?thesis
    proof (cases r2)
      case (Some e)
      then show ?thesis using True q t2 by simp
    next
      case None
      from Cons.IH[of "Suc k" s2] obtain rest where
        "trace (fst (ingest_images en fn rs (Suc k) s2)) = trace s2 @ rest"
        by blast
      then show ?thesis using True q t2 None by simp
    qed
  qed
qed

lemma process_docx_text_add:
  assumes "DocxDocument (uploads s) path = Inr doc"
    and "coll_get_source_ids (index s) (basename path) = []"
  shows "\<exists>rest. trace (fst (process_docx en s path)) =
           trace s @ EvAdd (text_ids (basename path) (length (chunks_of (extract_text (paragraphs doc)))))
                      (chunks_of (extract_text (paragraphs doc)))
                      (replicate (length (chunks_of (extract_text (paragraphs doc)))) (text_meta (basename path))) # rest"
proof -
  let ?ch = "chunks_of (extract_text (paragraphs doc))"
  let ?ids = "text_ids (basename path) (length ?ch)"
  let ?ms = "replicate (length ?ch) (text_meta (basename path))"
  obtain s1 r1 where c: "collection_add en s ?ids ?ch ?ms = (s1, r1)"
    by (cases "collection_add en s ?ids ?ch ?ms")
  have t1: "trace s1 = trace s @ [EvAdd ?ids ?ch ?ms]"
    using collection_add_trace[of en s ?ids ?ch ?ms] c by simp
  show ?thesis
  proof (cases r1)
    case (Some e)
    then show ?thesis using assms c t1 by (simp add: process_docx_def Let_def)
  next
    case None
    from ingest_images_trace[of en "basename path" "rels doc" 0 s1]
    obtain rest where "trace (fst (ingest_images en (basename path) (rels doc) 0 s1)) = trace s1 @ rest"
      by blast
    then show ?thesis using assms c t1 None by (simp add: process_docx_def Let_def)
  qed
qed

lemma coll_insert_set: "set (coll_insert e idx) \<subseteq> insert e (set idx)"
  by (auto simp: coll_insert_def)

lemma fold_coll_insert_set: "set (fold coll_insert es idx) \<subseteq> set idx \<union> set es"
proof (induction es arbitrary: idx)
  case Nil
  then show ?case by simp
next
  case (Cons e es)
  have "set (fold coll_insert es (coll_insert e idx)) \<subseteq> set (coll_insert e idx) \<union> set es"
    by (rule Cons.IH)
  then show ?case using coll_insert_set[of e idx] by auto
qed

lemma coll_add_new:
  assumes "x \<in> set (coll_add idx ids docs metas)"
  shows "x \<in> set idx \<or> (document x \<in> set docs \<and> metadata x \<in> set metas)"
proof (cases "x \<in> set idx")
  case True
  then show ?thesis by simp
next
  case False
  have "x \<in> set idx \<or>
        x \<in> set (map (\<lambda>(i, d, m). \<lparr>eid = i, document = d, metadata = m\<rparr>) (zip ids (zip docs metas)))"
    using assms fold_coll_insert_set unfolding coll_add_def by blast
  with False obtain i d m where
    z: "(i, d, m) \<in> set (zip ids (zip docs metas))" and x: "x = \<lparr>eid = i, document = d, metadata = m\<rparr>"
    by auto
  from z have "(d, m) \<in> set (zip docs metas)" by (rule set_zip_rightD)
  then have "d \<in> set docs" "m \<in> set metas" by (auto dest: set_zip_leftD set_zip_rightD)
  then show ?thesis using x by simp
qed

lemma collection_add_new:
  assumes "collection_add en s ids docs metas = (s', r)" and "x \<in> set (index s')"
  shows "x \<in> set (index s) \<or> (document x \<in> set docs \<and> metadata x \<in> set metas)"
proof (cases "add_outcome en ids docs metas")
  case None
  then have "index s' = coll_add (index s) ids docs metas"
    using assms(1) by (auto simp: collection_add_def Let_def)
  then show ?thesis using assms(2) coll_add_new by simp
next
  case (Some e)
  then have "index s' = index s"
    using assms(1) by (auto simp: collection_add_def Let_def)
  then show ?thesis using assms(2) by simp
qed

lemma queue_image_new:
  assumes "queue_image en fn r k s = (s2, r2)" and "x \<in> set (index s2)"
  shows "x \<in> set (index s) \<or> (document x = placeholder \<and> metadata x = image_meta fn)"
proof (cases "open_outcome en (fn @ ''_img_'' @ str_of_nat k @ ''.png'')")
  case (Some e)
  then have "index s2 = index s" using assms(1) by (auto simp: queue_image_def Let_def)
  then show ?thesis using assms(2) by simp
next
  case None
  show ?thesis
  proof (cases "blob r")
    case (Inl e)
    then have "index s2 = index s" using assms(1) None by (auto simp: queue_image_def Let_def)
    then show ?thesis using assms(2) by simp
  next
    case (Inr image_bytes)
    let ?s1 = "s\<lparr>trace := trace s @ [EvWrite (fn @ ''_img_'' @ str_of_nat k @ ''.png'')],
                 queue := write_file (queue s) (fn @ ''_img_'' @ str_of_nat k @ ''.png'') image_bytes\<rparr>"
    have c: "collection_add en ?s1 [fn @ ''_img_'' @ str_of_nat k] [placeholder] [image_meta fn] = (s2, r2)"
      using assms(1) None Inr by (simp add: queue_image_def Let_def)
    from collection_add_new[OF c assms(2)] show ?thesis by simp
  qed
qed

lemma ingest_images_new:
  "x \<in> set (index (fst (ingest_images en fn rs k s))) \<Longrightarrow>
   x \<in> set (index s) \<or> (document x = placeholder \<and> metadata x = image_meta fn)"
proof (induction rs arbitrary: k s)
  case Nil
  then show ?case by simp
next
  case (Cons r rs)
  show ?case
  proof (cases "str_contains ''image'' (target_ref r)")
    case False
    then have e: "ingest_images en fn (r # rs) k s = ingest_images en fn rs k s" by simp
    have "x \<in> set (index (fst (ingest_images en fn rs k s)))" using Cons.prems by (simp only: e)
    then show ?thesis by (rule Cons.IH)
  next
    case True
    obtain s2 r2 where q: "queue_image en fn r k s = (s2, r2)" by (cases "queue_image en fn r k s")
    have step: "y \<in> set (index s) \<or> (document y = placeholder \<and> metadata y = image_meta fn)"
      if "y \<in> set (index s2)" for y
      using queue_image_new[OF q that] .
    show ?thesis
    proof (cases r2)
      case (Some e)
      then have e: "fst (ingest_images en fn (r # rs) k s) = s2"
        using True q by simp
      have "x \<in> set (index s2)" using Cons.prems by (simp only: e)
      then show ?thesis by (rule step)
    next
      case None
      then have e: "fst (ingest_images en fn (r # rs) k s) = fst (ingest_images en fn rs (Suc k) s2)"
        using True q by simp
      have "x \<in> set (index (fst (ingest_images en fn rs (Suc k) s2)))"
        using Cons.prems by (simp only: e)
      from Cons.IH[OF this] show ?thesis using step by blast
    qed
  qed
qed

lemma process_docx_new:
  assumes "x \<in> set (index (fst (process_docx en s path)))" and "x \<notin> set (index s)"
  shows "metadata x = text_meta (basename path) \<or>
         (document x = placeholder \<and> metadata x = image_meta (basename path))"
proof (cases "DocxDocument (uploads s) path")
  case (Inl e)
  then show ?thesis using assms by (simp add: process_docx_def)
next
  case (Inr doc)
  show ?thesis
  proof (cases "coll_get_source_ids (index s) (basename path) = []")
    case False
    then show ?thesis using assms Inr by (simp add: process_docx_def)
  next
    case True
    let ?ch = "chunks_of (extract_text (paragraphs doc))"
    obtain s1 r1 where c: "collection_add en s (text_ids (basename path) (length ?ch)) ?ch
                (replicate (length ?ch) (text_meta (basename path))) = (s1, r1)"
      by (cases "collection_add en s (text_ids (basename path) (length ?ch)) ?ch
                (replicate (length ?ch) (text_meta (basename path)))")
    have step: "y \<in> set (index s) \<or> metadata y = text_meta (basename path)"
      if "y \<in> set (index s1)" for y
      using collection_add_new[OF c that] by auto
    show ?thesis
    proof (cases r1)
      case (Some e)
      then have e: "fst (process_docx en s path) = s1"
        using Inr True c by (simp add: process_docx_def Let_def)
      have "x \<in> set (index s1)" using assms(1) by (simp only: e)
      from step[OF this] show ?thesis using assms(2) by simp
    next
      case None
      then have e: "fst (process_docx en s path) = fst (ingest_images en (basename path) (rels doc) 0 s1)"
        using Inr True c by (simp add: process_docx_def Let_def)
      have "x \<in> set (index (fst (ingest_images en (basename path) (rels doc) 0 s1)))"
        using assms(1) by (simp only: e)
      from ingest_images_new[OF this] show ?thesis using step assms(2) by blast
    qed
  qed
qed

section \<open>What one visit of the worker changes\<close>

lemma lookup_update_same:
  "coll_lookup (coll_update idx i d m) i =
     map_option (\<lambda>e. e\<lparr>document := d, metadata := m\<rparr>) (coll_lookup idx i)"
  by (induction idx) (auto simp: coll_lookup_def coll_update_def)

lemma lookup_update_other:
  "j \<noteq> i \<Longrightarrow> coll_lookup (coll_update idx i d m) j = coll_lookup idx j"
  by (induction idx) (auto simp: coll_lookup_def coll_update_def)

lemma map_of_remove:
  "map_of (filter (\<lambda>(n, c). n \<noteq> name) q) p = (if p = name then None else map_of q p)"
  by (induction q) auto

lemma unlink_index: "index (fst (unlink en s name)) = index s"
  by (simp add: unlink_def Let_def split: option.splits)

lemma unlink_trace: "trace (fst (unlink en s name)) = trace s @ [EvUnlink name]"
  by (simp add: unlink_def Let_def split: option.splits)

lemma unlink_queue_other:
  "p \<noteq> name \<Longrightarrow> map_of (queue (fst (unlink en s name))) p = map_of (queue s) p"
  by (simp add: unlink_def Let_def map_of_remove split: option.splits)

lemma unlink_failed_queue:
  "unlink en s name = (s', Some e) \<Longrightarrow> queue s' = queue s"
  by (auto simp: unlink_def Let_def split: option.splits)

lemma collection_update_trace:
  "trace (fst (collection_update en s i d m)) = trace s @ [EvUpdate i d m]"
  by (simp add: collection_update_def Let_def split: option.splits)

lemma collection_update_queue:
  "queue (fst (collection_update en s i d m)) = queue s"
  by (simp add: collection_update_def Let_def split: option.splits)

lemma collection_update_other:
  "j \<noteq> i \<Longrightarrow> coll_lookup (index (fst (collection_update en s i d m))) j = coll_lookup (index s) j"
  by (simp add: collection_update_def Let_def lookup_update_other split: option.splits)

lemma analyse_index_other:
  "j \<noteq> doc_id \<Longrightarrow> coll_lookup (index (fst (analyse en s p doc_id m))) j = coll_lookup (index s) j"
  unfolding analyse_def Let_def
  by (auto simp: collection_update_def unlink_def Let_def lookup_update_other
      split: option.splits sum.splits prod.splits)

lemma analyse_queue_other:
  "q \<noteq> p \<Longrightarrow> map_of (queue (fst (analyse en s p doc_id m))) q = map_of (queue s) q"
  unfolding analyse_def Let_def
  by (auto simp: collection_update_def unlink_def Let_def map_of_remove
      split: option.splits sum.splits prod.splits)

lemma analyse_failed_queue:
  "analyse en s p doc_id m = (s', Failed e) \<Longrightarrow> queue s' = queue s"
  unfolding analyse_def Let_def
  by (auto simp: collection_update_def unlink_def Let_def
      split: option.splits sum.splits prod.splits)

lemma analyse_trace:
  "\<exists>new. trace (fst (analyse en s p doc_id m)) = trace s @ new \<and>
         (\<forall>ev\<in>set new. \<forall>d. touches d ev \<longrightarrow> d = doc_id)"
  unfolding analyse_def Let_def
  by (auto simp: collection_update_def unlink_def Let_def touches_def
      split: option.splits sum.splits prod.splits)

lemma visit_index_other:
  "stem q \<noteq> d \<Longrightarrow> coll_lookup (index (fst (visit en s q))) d = coll_lookup (index s) d"
  unfolding visit_def Let_def
  by (auto simp: analyse_index_other unlink_def Let_def split: list.splits option.splits prod.splits)

lemma visit_queue_other:
  "q \<noteq> p \<Longrightarrow> map_of (queue (fst (visit en s q))) p = map_of (queue s) p"
  unfolding visit_def Let_def
  by (auto simp: analyse_queue_other unlink_def Let_def map_of_remove split: list.splits option.splits prod.splits)

lemma visit_failed_queue:
  "visit en s p = (s', Failed e) \<Longrightarrow> queue s' = queue s"
  unfolding visit_def Let_def
  by (auto simp: unlink_def Let_def dest: analyse_failed_queue split: list.splits option.splits prod.splits if_splits)

lemma visit_orphan:
  "coll_lookup (index s) (stem p) = None \<Longrightarrow> visit en s p = (s, Orphan)"
  by (simp add: visit_def coll_get_id_def)

lemma visit_processed:
  "coll_lookup (index s) (stem p) = Some e \<Longrightarrow> is_processed (metadata e) \<Longrightarrow>
   index (fst (visit en s p)) = index s \<and> trace (fst (visit en s p)) = trace s @ [EvUnlink p]"
  by (auto simp: visit_def coll_get_id_def unlink_def Let_def split: option.splits)

lemma visit_trace:
  "\<exists>new. trace (fst (visit en s p)) = trace s @ new \<and>
         (\<forall>ev\<in>set new. \<forall>d. touches d ev \<longrightarrow> d = stem p)"
proof (cases "coll_get_id (index s) (stem p)")
  case Nil
  then show ?thesis by (simp add: visit_def)
next
  case (Cons m ms)
  show ?thesis
  proof (cases "is_processed m")
    case True
    then show ?thesis using Cons
      by (auto simp: visit_def unlink_def Let_def touches_def split: option.splits)
  next
    case False
    then show ?thesis using Cons analyse_trace[of en s p "stem p" m]
      by (simp add: visit_def)
  qed
qed
lemma visit_terminal:
  assumes "coll_lookup (index s) d = Some e" and "is_processed (metadata e)"
  shows "coll_lookup (index (fst (visit en s q))) d = Some e \<and>
         (\<exists>new. trace (fst (visit en s q)) = trace s @ new \<and> \<not> list_ex (touches d) new)"
proof (cases "stem q = d")
  case True
  then show ?thesis using visit_processed[of s q e en] assms
    by (simp add: touches_def)
next
  case False
  from visit_trace[of en s q] obtain new where
    n: "trace (fst (visit en s q)) = trace s @ new" "\<forall>ev\<in>set new. \<forall>d. touches d ev \<longrightarrow> d = stem q"
    by blast
  have "\<not> list_ex (touches d) new" using n(2) False by (auto simp: list_ex_iff)
  then show ?thesis using visit_index_other[OF False, of en s] assms n(1) by auto
qed

lemma visit_analysed:
  assumes "visit en s p = (s', Analysed)"
  shows "\<exists>e image_bytes image_b64 description.
           coll_lookup (index s) (stem p) = Some e \<and> \<not> is_processed (metadata e) \<and>
           map_of (queue s) p = Some image_bytes \<and>
           prepare_image_for_vision en image_bytes = Inr image_b64 \<and>
           describe_image en image_b64 = Inr description \<and>
           coll_lookup (index s') (stem p) =
             Some (e\<lparr>document := description,
                      metadata := \<lparr>m_source = m_source (metadata e), m_processed = Some True,
                                   m_type = Some ''image''\<rparr>\<rparr>) \<and>
           trace s' = trace s @
             [EvVision (stem p) image_b64,
              EvUpdate (stem p) description
                \<lparr>m_source = m_source (metadata e), m_processed = Some True, m_type = Some ''image''\<rparr>,
              EvUnlink p]"
  using assms
  unfolding visit_def analyse_def Let_def coll_get_id_def
  by (auto simp: collection_update_def unlink_def Let_def lookup_update_same
      split: option.splits sum.splits prod.splits if_splits list.splits)
lemma visit_attempt_fails:
  assumes "coll_lookup (index s) (stem a) = Some ea" and "\<not> is_processed (metadata ea)"
    and "map_of (queue s) a = Some image_bytes"
    and "prepare_image_for_vision en image_bytes = Inl err \<or>
         (\<exists>image_b64. prepare_image_for_vision en image_bytes = Inr image_b64 \<and>
                      describe_image en image_b64 = Inl err)"
  shows "snd (visit en s a) = Failed err \<and> queue (fst (visit en s a)) = queue s \<and>
         index (fst (visit en s a)) = index s"
  using assms by (auto simp: visit_def analyse_def coll_get_id_def Let_def)

lemma analyse_queue_cases:
  "queue (fst (analyse en s p d m)) = queue s \<or>
   queue (fst (analyse en s p d m)) = filter (\<lambda>(n, c). n \<noteq> p) (queue s)"
  unfolding analyse_def Let_def
  by (auto simp: collection_update_def unlink_def Let_def
      split: option.splits sum.splits prod.splits)

lemma visit_queue_cases:
  "queue (fst (visit en s q)) = queue s \<or>
   queue (fst (visit en s q)) = filter (\<lambda>(n, c). n \<noteq> q) (queue s)"
proof (cases "coll_get_id (index s) (stem q)")
  case Nil
  then show ?thesis by (simp add: visit_def)
next
  case (Cons m ms)
  show ?thesis
  proof (cases "is_processed m")
    case True
    then show ?thesis using Cons
      by (auto simp: visit_def unlink_def Let_def split: option.splits)
  next
    case False
    then show ?thesis using Cons analyse_queue_cases[of en s q "stem q" m]
      by (simp add: visit_def)
  qed
qed

lemma visit_vision_success:
  assumes "coll_lookup (index s) (stem b) = Some eb" and "\<not> is_processed (metadata eb)"
    and "m_source (metadata eb) = Some src"
    and "map_of (queue s) b = Some image_bytes"
    and "prepare_image_for_vision en image_bytes = Inr image_b64"
    and "describe_image en image_b64 = Inr description"
    and "update_outcome en (stem b) description
           \<lparr>m_source = Some src, m_processed = Some True, m_type = Some ''image''\<rparr> = None"
  shows "coll_lookup (index (fst (visit en s b))) (stem b) =
           Some (eb\<lparr>document := description,
                    metadata := \<lparr>m_source = Some src, m_processed = Some True, m_type = Some ''image''\<rparr>\<rparr>)"
  using assms
  by (simp add: visit_def analyse_def coll_get_id_def Let_def collection_update_def unlink_def
      lookup_update_same split: option.splits)

lemma visit_keeps_absent:
  "coll_lookup (index s) d = None \<Longrightarrow> coll_lookup (index (fst (visit en s q))) d = None"
proof (cases "stem q = d")
  case True
  assume "coll_lookup (index s) d = None"
  then show ?thesis using True visit_orphan[of s q en] by simp
next
  case False
  assume "coll_lookup (index s) d = None"
  then show ?thesis using visit_index_other[OF False, of en s] by simp
qed

lemma visit_orphan_queue:
  "coll_lookup (index s) (stem p) = None \<Longrightarrow> map_of (queue (fst (visit en s q))) p = map_of (queue s) p"
proof (cases "q = p")
  case True
  assume "coll_lookup (index s) (stem p) = None"
  then show ?thesis using True visit_orphan[of s p en] by simp
next
  case False
  then show ?thesis by (simp add: visit_queue_other)
qed

section \<open>What a sweep changes\<close>

lemma sweep_over_step:
  "sweep_over en (q # qs) s =
     (fst (sweep_over en qs (fst (visit en s q))),
      (q, snd (visit en s q)) # snd (sweep_over en qs (fst (visit en s q))))"
  by (simp split: prod.splits)

lemma sweep_over_names: "map fst (snd (sweep_over en qs s)) = qs"
  by (induction qs arbitrary: s) (simp_all add: sweep_over_step del: sweep_over.simps(2))

lemma sweep_index_other:
  "d \<notin> stem ` set qs \<Longrightarrow> coll_lookup (index (fst (sweep_over en qs s))) d = coll_lookup (index s) d"
  by (induction qs arbitrary: s)
     (auto simp: sweep_over_step visit_index_other simp del: sweep_over.simps(2))

lemma sweep_queue_other:
  "p \<notin> set qs \<Longrightarrow> map_of (queue (fst (sweep_over en qs s))) p = map_of (queue s) p"
  by (induction qs arbitrary: s)
     (auto simp: sweep_over_step visit_queue_other simp del: sweep_over.simps(2))

lemma sweep_over_terminal:
  assumes "coll_lookup (index s) d = Some e" and "is_processed (metadata e)"
  shows "coll_lookup (index (fst (sweep_over en qs s))) d = Some e \<and>
         (\<exists>new. trace (fst (sweep_over en qs s)) = trace s @ new \<and> \<not> list_ex (touches d) new)"
  using assms
proof (induction qs arbitrary: s)
  case Nil
  then show ?case by simp
next
  case (Cons q qs)
  let ?s1 = "fst (visit en s q)"
  from visit_terminal[OF Cons.prems, of en q] obtain new1 where
    a: "coll_lookup (index ?s1) d = Some e" "trace ?s1 = trace s @ new1" "\<not> list_ex (touches d) new1"
    by auto
  from Cons.IH[OF a(1) Cons.prems(2)] obtain new2 where
    b: "coll_lookup (index (fst (sweep_over en qs ?s1))) d = Some e"
       "trace (fst (sweep_over en qs ?s1)) = trace ?s1 @ new2" "\<not> list_ex (touches d) new2"
    by auto
  have "trace (fst (sweep_over en (q # qs) s)) = trace s @ (new1 @ new2)"
    using a(2) b(2) by (simp add: sweep_over_step del: sweep_over.simps(2))
  moreover have "\<not> list_ex (touches d) (new1 @ new2)" using a(3) b(3) by simp
  ultimately show ?case using b(1) by (auto simp: sweep_over_step simp del: sweep_over.simps(2))
qed

lemma vision_worker_terminal:
  assumes "coll_lookup (index s) d = Some e" and "is_processed (metadata e)"
  shows "coll_lookup (index (vision_worker ens s)) d = Some e \<and>
         (\<exists>new. trace (vision_worker ens s) = trace s @ new \<and> \<not> list_ex (touches d) new)"
  using assms
proof (induction ens arbitrary: s)
  case Nil
  then show ?case by simp
next
  case (Cons en ens)
  from sweep_over_terminal[OF Cons.prems, of en "glob_png (queue s)"] obtain new1 where
    a: "coll_lookup (index (fst (sweep en s))) d = Some e" "trace (fst (sweep en s)) = trace s @ new1"
       "\<not> list_ex (touches d) new1"
    by (auto simp: sweep_def)
  from Cons.IH[OF a(1) Cons.prems(2)] obtain new2 where
    b: "coll_lookup (index (vision_worker ens (fst (sweep en s)))) d = Some e"
       "trace (vision_worker ens (fst (sweep en s))) = trace (fst (sweep en s)) @ new2"
       "\<not> list_ex (touches d) new2"
    by auto
  have "trace (vision_worker (en # ens) s) = trace s @ (new1 @ new2)"
    using a(2) b(2) by simp
  moreover have "\<not> list_ex (touches d) (new1 @ new2)" using a(3) b(3) by simp
  ultimately show ?case using b(1) by auto
qed

lemma sweep_failed_keeps:
  "distinct qs \<Longrightarrow> (p, Failed e) \<in> set (snd (sweep_over en qs s)) \<Longrightarrow>
   map_of (queue (fst (sweep_over en qs s))) p = map_of (queue s) p"
proof (induction qs arbitrary: s)
  case Nil
  then show ?case by simp
next
  case (Cons q qs)
  let ?s1 = "fst (visit en s q)"
  from Cons.prems(2) have m: "(p, Failed e) = (q, snd (visit en s q)) \<or>
                              (p, Failed e) \<in> set (snd (sweep_over en qs ?s1))"
    by (simp add: sweep_over_step del: sweep_over.simps(2))
  have fin: "fst (sweep_over en (q # qs) s) = fst (sweep_over en qs ?s1)"
    by (simp add: sweep_over_step del: sweep_over.simps(2))
  show ?case
  proof (cases "p \<in> set qs")
    case True
    then have pq: "q \<noteq> p" using Cons.prems(1) by auto
    with m have "(p, Failed e) \<in> set (snd (sweep_over en qs ?s1))" by auto
    then have "map_of (queue (fst (sweep_over en qs ?s1))) p = map_of (queue ?s1) p"
      using Cons.IH[of ?s1] Cons.prems(1) by simp
    then show ?thesis using visit_queue_other[OF pq, of en s] fin by simp
  next
    case False
    have "p \<notin> set (map fst (snd (sweep_over en qs ?s1)))"
      using False by (simp add: sweep_over_names del: set_map)
    then have "(p, Failed e) \<notin> set (snd (sweep_over en qs ?s1))" by force
    with m have pq: "p = q" and f: "snd (visit en s q) = Failed e" by auto
    have "visit en s q = (?s1, Failed e)" using f by (metis prod.collapse)
    then have "queue ?s1 = queue s" by (rule visit_failed_queue)
    then show ?thesis using sweep_queue_other[OF False, of en ?s1] fin by simp
  qed
qed

lemma sweep_attempt_fails:
  assumes "distinct (map stem qs)" and "a \<in> set qs"
    and "coll_lookup (index s) (stem a) = Some ea" and "\<not> is_processed (metadata ea)"
    and "map_of (queue s) a = Some image_bytes"
    and "prepare_image_for_vision en image_bytes = Inl err \<or>
         (\<exists>image_b64. prepare_image_for_vision en image_bytes = Inr image_b64 \<and>
                      describe_image en image_b64 = Inl err)"
  shows "(a, Failed err) \<in> set (snd (sweep_over en qs s)) \<and>
         map_of (queue (fst (sweep_over en qs s))) a = Some image_bytes \<and>
         coll_lookup (index (fst (sweep_over en qs s))) (stem a) = Some ea"
  using assms(1-5)
proof (induction qs arbitrary: s)
  case Nil
  then show ?case by simp
next
  case (Cons q qs)
  let ?s1 = "fst (visit en s q)"
  show ?case
  proof (cases "q = a")
    case True
    note v = visit_attempt_fails[OF Cons.prems(3,4,5) assms(6)]
    have "a \<notin> set qs" and "stem a \<notin> stem ` set qs" using Cons.prems(1) True by auto
    then have "map_of (queue (fst (sweep_over en qs ?s1))) a = map_of (queue ?s1) a"
      and "coll_lookup (index (fst (sweep_over en qs ?s1))) (stem a) = coll_lookup (index ?s1) (stem a)"
      by (simp_all add: sweep_queue_other sweep_index_other)
    then show ?thesis using True v Cons.prems(3,5)
      by (simp add: sweep_over_step del: sweep_over.simps(2))
  next
    case False
    then have st: "stem q \<noteq> stem a" and mem: "a \<in> set qs" using Cons.prems(1,2) by auto
    have "coll_lookup (index ?s1) (stem a) = Some ea"
      using visit_index_other[OF st, of en s] Cons.prems(3) by simp
    moreover have "map_of (queue ?s1) a = Some image_bytes"
      using visit_queue_other[OF False, of en s] Cons.prems(5) by simp
    ultimately have "(a, Failed err) \<in> set (snd (sweep_over en qs ?s1)) \<and>
         map_of (queue (fst (sweep_over en qs ?s1))) a = Some image_bytes \<and>
         coll_lookup (index (fst (sweep_over en qs ?s1))) (stem a) = Some ea"
      using Cons.IH[of ?s1] Cons.prems(1,4) mem by simp
    then show ?thesis by (simp add: sweep_over_step del: sweep_over.simps(2))
  qed
qed

lemma glob_png_remove:
  "glob_png (filter (\<lambda>(n, c). n \<noteq> q) dir) = filter (\<lambda>n. n \<noteq> q) (glob_png dir)"
  by (induction dir) (auto simp: glob_png_def)

lemma visit_keeps_distinct:
  "distinct (map stem (glob_png (queue s))) \<Longrightarrow>
   distinct (map stem (glob_png (queue (fst (visit en s q)))))"
  using visit_queue_cases[of en s q] by (auto simp: glob_png_remove distinct_map_filter)

lemma sweep_over_keeps_distinct:
  "distinct (map stem (glob_png (queue s))) \<Longrightarrow>
   distinct (map stem (glob_png (queue (fst (sweep_over en qs s)))))"
  by (induction qs arbitrary: s)
     (simp_all add: sweep_over_step visit_keeps_distinct del: sweep_over.simps(2))

lemma sweep_vision_success:
  assumes "distinct (map stem qs)" and "b \<in> set qs"
    and "coll_lookup (index s) (stem b) = Some eb" and "\<not> is_processed (metadata eb)"
    and "m_source (metadata eb) = Some src"
    and "map_of (queue s) b = Some image_bytes"
    and "prepare_image_for_vision en image_bytes = Inr image_b64"
    and "describe_image en image_b64 = Inr description"
    and "update_outcome en (stem b) description
           \<lparr>m_source = Some src, m_processed = Some True, m_type = Some ''image''\<rparr> = None"
  shows "coll_lookup (index (fst (sweep_over en qs s))) (stem b) =
           Some (eb\<lparr>document := description,
                    metadata := \<lparr>m_source = Some src, m_processed = Some True, m_type = Some ''image''\<rparr>\<rparr>)"
  using assms(1-6)
proof (induction qs arbitrary: s)
  case Nil
  then show ?case by simp
next
  case (Cons q qs)
  let ?s1 = "fst (visit en s q)"
  show ?case
  proof (cases "q = b")
    case True
    have "stem b \<notin> stem ` set qs" using Cons.prems(1) True by auto
    then have "coll_lookup (index (fst (sweep_over en qs ?s1))) (stem b) = coll_lookup (index ?s1) (stem b)"
      by (rule sweep_index_other)
    then show ?thesis
      using True visit_vision_success[OF Cons.prems(3,4,5,6) assms(7,8,9)]
      by (simp add: sweep_over_step del: sweep_over.simps(2))
  next
    case False
    then have st: "stem q \<noteq> stem b" and mem: "b \<in> set qs" using Cons.prems(1,2) by auto
    have "coll_lookup (index ?s1) (stem b) = Some eb"
      using visit_index_other[OF st, of en s] Cons.prems(3) by simp
    moreover have "map_of (queue ?s1) b = Some image_bytes"
      using visit_queue_other[OF False, of en s] Cons.prems(6) by simp
    ultimately show ?thesis
      using Cons.IH[of ?s1] Cons.prems(1,4,5) mem
      by (simp add: sweep_over_step del: sweep_over.simps(2))
  qed
qed

lemma glob_png_member:
  "p \<in> set (glob_png dir) \<longleftrightarrow> (map_of dir p \<noteq> None \<and> starts_with (rev ''.png'') (rev p))"
  by (auto simp: glob_png_def map_of_eq_None_iff)
lemma sweep_over_orphan:
  assumes "coll_lookup (index s) (stem p) = None"
  shows "coll_lookup (index (fst (sweep_over en qs s))) (stem p) = None \<and>
         map_of (queue (fst (sweep_over en qs s))) p = map_of (queue s) p \<and>
         (\<forall>out. (p, out) \<in> set (snd (sweep_over en qs s)) \<longrightarrow> out = Orphan)"
  using assms
proof (induction qs arbitrary: s)
  case Nil
  then show ?case by simp
next
  case (Cons q qs)
  let ?s1 = "fst (visit en s q)"
  have a: "coll_lookup (index ?s1) (stem p) = None" using visit_keeps_absent[OF Cons.prems] .
  have b: "map_of (queue ?s1) p = map_of (queue s) p" using visit_orphan_queue[OF Cons.prems] .
  have c: "q = p \<Longrightarrow> snd (visit en s q) = Orphan" using visit_orphan[OF Cons.prems, of en] by simp
  from Cons.IH[OF a] show ?case using a b c
    by (auto simp: sweep_over_step simp del: sweep_over.simps(2))
qed
lemma coll_get_id_empty: "coll_get_id idx i = [] \<longleftrightarrow> coll_lookup idx i = None"
  by (simp add: coll_get_id_def split: option.splits)

lemma find_current_name:
  "map_option filename (find_current idx ps) =
     find (\<lambda>p. case coll_get_id idx (stem p) of [] \<Rightarrow> False | m # _ \<Rightarrow> \<not> is_processed m) ps"
  by (induction ps) (auto split: list.splits)

lemma status_agrees_when_sorted:
  "sorted (glob_png (queue s)) \<Longrightarrow> map_option filename (current (queue_status s)) = worker_next s"
  by (simp add: queue_status_def worker_next_def find_current_name sorted_sort_id Let_def)

section \<open>Evaluating the examples\<close>

lemmas run_defs =
  process_docx_def queue_image_def str_of_nat.simps DocxDocument_def basename_def coll_get_source_ids_def extract_text_def
  chunks_of_def py_range_closed py_slice_def text_ids_def text_meta_def image_meta_def placeholder_def
  collection_add_def coll_add_def coll_insert_def write_file_def Let_def str_strip_def is_space_def
  visit_def analyse_def coll_get_id_def coll_lookup_def collection_update_def coll_update_def
  unlink_def glob_png_def stem_def sweep_def is_processed_def prepare_image_for_vision_def
  describe_image_def queue_status_def worker_next_def upload_file_def os_path_join_def UPLOAD_FOLDER_def

lemmas demo_defs = env_ok_def env_vision_down_def env_image_add_down_def env_query_down_def
  manual_def blank_manual_def long_manual_def demo_def

section \<open>The status endpoint and the worker's order\<close>

text \<open>
  C1. The status endpoint is meant to report as current image the first unprocessed
  artifact in the order the worker visits artifacts. The endpoint sorts the directory
  listing; the worker takes the listing as the directory yields it. In the example state
  the listing has \<open>b\<close>'s artifact before \<open>a\<close>'s and both are unprocessed: the endpoint
  reports \<open>a\<close>'s artifact, while the worker's sweep submits \<open>b\<close>'s first.
\<close>

theorem queue_status_order_differs:
  "glob_png (queue demo) =
     [''b.docx_img_0.png'', ''ghost_img_0.png'', ''a.docx_img_0.png'', ''c.docx_img_0.png''] \<and>
   current (queue_status demo) = Some \<lparr>filename = ''a.docx_img_0.png'', source_doc = ''a.docx''\<rparr> \<and>
   worker_next demo = Some ''b.docx_img_0.png'' \<and>
   take 3 (trace (fst (sweep env_ok demo))) =
     [EvVision ''b.docx_img_0'' ''b64:PNGB'',
      EvUpdate ''b.docx_img_0'' ''screen of b64:PNGB''
        \<lparr>m_source = Some ''b.docx'', m_processed = Some True, m_type = Some ''image''\<rparr>,
      EvUnlink ''b.docx_img_0.png'']"
  by (simp add: run_defs demo_defs)

section \<open>Ingestion is a no-op for a known source\<close>

text \<open>
  C2. When the file name of the document is already the source of some entry of the
  index, and the document parses, \<open>process_docx\<close> returns normally and leaves the whole
  state as it was: no index entry is added, updated or removed, no artifact is written,
  and no call to a collaborator is made.
\<close>

theorem process_docx_known_source_noop:
  assumes "coll_get_source_ids (index s) (basename path) \<noteq> []"
    and "DocxDocument (uploads s) path = Inr doc"
  shows "process_docx en s path = (s, None)"
  using assms by (simp add: process_docx_def)

theorem process_docx_known_source_noop_witness:
  "process_docx env_image_add_down demo ''./uploaded_docs/a.docx'' = (demo, None)"
  by (rule process_docx_known_source_noop[where doc = manual])
     (simp_all add: DocxDocument_def basename_def coll_get_source_ids_def demo_def)

section \<open>Ingestion that fails\<close>

text \<open>
  C3, as amended. When \<open>process_docx\<close> fails on a source not yet in the index with a
  parse error, or with an error of its first index write (the add of the text passages),
  the index, the queue and the uploads are as before, the source is still unknown to the
  index, and a later call for the same path whose document parses does not return at the
  known-source check: it calls the add of the text passages again.
\<close>

theorem process_docx_failure_before_first_write:
  assumes "coll_get_source_ids (index s) (basename path) = []"
    and "DocxDocument (uploads s) path = Inl e \<or>
         (\<exists>doc. DocxDocument (uploads s) path = Inr doc \<and>
            add_outcome en
              (text_ids (basename path) (length (chunks_of (extract_text (paragraphs doc)))))
              (chunks_of (extract_text (paragraphs doc)))
              (replicate (length (chunks_of (extract_text (paragraphs doc))))
                 (text_meta (basename path))) = Some e)"
  shows "snd (process_docx en s path) = Some e \<and>
         index (fst (process_docx en s path)) = index s \<and>
         queue (fst (process_docx en s path)) = queue s \<and>
         uploads (fst (process_docx en s path)) = uploads s \<and>
         coll_get_source_ids (index (fst (process_docx en s path))) (basename path) = [] \<and>
         (\<forall>en2 s2 doc2.
            index s2 = index (fst (process_docx en s path)) \<longrightarrow>
            DocxDocument (uploads s2) path = Inr doc2 \<longrightarrow>
            (\<exists>rest. trace (fst (process_docx en2 s2 path)) =
               trace s2 @
               EvAdd (text_ids (basename path) (length (chunks_of (extract_text (paragraphs doc2)))))
                 (chunks_of (extract_text (paragraphs doc2)))
                 (replicate (length (chunks_of (extract_text (paragraphs doc2))))
                    (text_meta (basename path))) # rest))"
proof -
  have same: "snd (process_docx en s path) = Some e \<and> index (fst (process_docx en s path)) = index s \<and>
         queue (fst (process_docx en s path)) = queue s \<and>
         uploads (fst (process_docx en s path)) = uploads s"
    using assms
    by (auto simp: process_docx_def collection_add_def Let_def)
  then have unknown: "coll_get_source_ids (index (fst (process_docx en s path))) (basename path) = []"
    using assms(1) by simp
  have again: "\<exists>rest. trace (fst (process_docx en2 s2 path)) =
               trace s2 @
               EvAdd (text_ids (basename path) (length (chunks_of (extract_text (paragraphs doc2)))))
                 (chunks_of (extract_text (paragraphs doc2)))
                 (replicate (length (chunks_of (extract_text (paragraphs doc2))))
                    (text_meta (basename path))) # rest"
    if "index s2 = index (fst (process_docx en s path))" and "DocxDocument (uploads s2) path = Inr doc2"
    for en2 s2 doc2
    using process_docx_text_add[OF that(2), of en2] that(1) unknown by simp
  show ?thesis using same unknown again by blast
qed

theorem process_docx_failure_before_first_write_witness:
  "snd (process_docx env_add_down demo ''./uploaded_docs/manual.docx'') = Some IndexWriteError \<and>
   index (fst (process_docx env_add_down demo ''./uploaded_docs/manual.docx'')) = index demo \<and>
   coll_get_source_ids (index (fst (process_docx env_add_down demo ''./uploaded_docs/manual.docx'')))
     ''manual.docx'' = [] \<and>
   snd (process_docx env_ok demo ''./uploaded_docs/missing.docx'') = Some ParseError \<and>
   (\<exists>rest. trace (fst (process_docx env_ok
                  (fst (process_docx env_add_down demo ''./uploaded_docs/manual.docx''))
                  ''./uploaded_docs/manual.docx'')) =
      trace (fst (process_docx env_add_down demo ''./uploaded_docs/manual.docx'')) @
      EvAdd [''manual.docx_t_0''] [''Open the course page.\<newline>Press the gear icon.'']
        [\<lparr>m_source = Some ''manual.docx'', m_processed = None, m_type = Some ''text''\<rparr>] # rest)"
proof -
  let ?p = "''./uploaded_docs/manual.docx''"
  have b: "basename ?p = ''manual.docx''" by (simp add: basename_def)
  have u: "coll_get_source_ids (index demo) (basename ?p) = []"
    by (simp add: basename_def coll_get_source_ids_def demo_def)
  have d: "DocxDocument (uploads demo) ?p = Inr manual"
    by (simp add: DocxDocument_def demo_def)
  have t: "extract_text (paragraphs manual) = ''Open the course page.\<newline>Press the gear icon.''"
    by (simp add: extract_text_def manual_def str_strip_def is_space_def)
  have c: "chunks_of ''Open the course page.\<newline>Press the gear icon.'' = [''Open the course page.\<newline>Press the gear icon.'']"
    by (simp add: chunks_of_def py_range_closed py_slice_def)
  have h: "DocxDocument (uploads demo) ?p = Inl IndexWriteError \<or>
         (\<exists>doc. DocxDocument (uploads demo) ?p = Inr doc \<and>
            add_outcome env_add_down
              (text_ids (basename ?p) (length (chunks_of (extract_text (paragraphs doc)))))
              (chunks_of (extract_text (paragraphs doc)))
              (replicate (length (chunks_of (extract_text (paragraphs doc))))
                 (text_meta (basename ?p))) = Some IndexWriteError)"
    using d by (simp add: env_add_down_def env_ok_def)
  note w = process_docx_failure_before_first_write[OF u h]
  have u2: "coll_get_source_ids (index demo) (basename ''./uploaded_docs/missing.docx'') = []"
    by (simp add: basename_def coll_get_source_ids_def demo_def)
  have h2: "DocxDocument (uploads demo) ''./uploaded_docs/missing.docx'' = Inl ParseError \<or>
         (\<exists>doc. DocxDocument (uploads demo) ''./uploaded_docs/missing.docx'' = Inr doc \<and>
            add_outcome env_ok
              (text_ids (basename ''./uploaded_docs/missing.docx'') (length (chunks_of (extract_text (paragraphs doc)))))
              (chunks_of (extract_text (paragraphs doc)))
              (replicate (length (chunks_of (extract_text (paragraphs doc))))
                 (text_meta (basename ''./uploaded_docs/missing.docx''))) = Some ParseError)"
    by (simp add: DocxDocument_def demo_def)
  note w2 = process_docx_failure_before_first_write[OF u2 h2]
  have up: "DocxDocument (uploads (fst (process_docx env_add_down demo ?p))) ?p = Inr manual"
    using w d by simp
  from w have "\<exists>rest. trace (fst (process_docx env_ok (fst (process_docx env_add_down demo ?p)) ?p)) =
               trace (fst (process_docx env_add_down demo ?p)) @
               EvAdd (text_ids (basename ?p) (length (chunks_of (extract_text (paragraphs manual)))))
                 (chunks_of (extract_text (paragraphs manual)))
                 (replicate (length (chunks_of (extract_text (paragraphs manual))))
                    (text_meta (basename ?p))) # rest"
    using up by blast
  then have E: "\<exists>rest. trace (fst (process_docx env_ok (fst (process_docx env_add_down demo ?p)) ?p)) =
      trace (fst (process_docx env_add_down demo ?p)) @
      EvAdd [''manual.docx_t_0''] [''Open the course page.\<newline>Press the gear icon.'']
        [\<lparr>m_source = Some ''manual.docx'', m_processed = None, m_type = Some ''text''\<rparr>] # rest"
    by (simp add: b t c text_ids_def text_meta_def str_of_nat.simps)
  have A: "snd (process_docx env_add_down demo ?p) = Some IndexWriteError" using w by blast
  have B: "index (fst (process_docx env_add_down demo ?p)) = index demo" using w by blast
  have C: "coll_get_source_ids (index (fst (process_docx env_add_down demo ?p))) ''manual.docx'' = []"
    using w unfolding b by blast
  have D: "snd (process_docx env_ok demo ''./uploaded_docs/missing.docx'') = Some ParseError"
    using w2 by blast
  show ?thesis using A B C D E by blast
qed

text \<open>
  A failure after an index write has succeeded is different. Here the add of the first
  image entry fails: the upload answers 500, the text passage stays in the index, and the
  same upload repeated with collaborators that work answers 200 without changing anything.
\<close>

theorem partial_ingestion_counterexample:
  "fst (snd (upload_file env_image_add_down demo (Some (''manual.docx'', Docx manual)))) = 500 \<and>
   coll_get_source_ids
     (index (fst (upload_file env_image_add_down demo (Some (''manual.docx'', Docx manual)))))
     ''manual.docx'' = [''manual.docx_t_0''] \<and>
   upload_file env_ok
     (fst (upload_file env_image_add_down demo (Some (''manual.docx'', Docx manual))))
     (Some (''manual.docx'', Docx manual)) =
     (fst (upload_file env_image_add_down demo (Some (''manual.docx'', Docx manual))), 200,
      Message ''File manual.docx uploaded and processed successfully!'')"
  by (simp add: run_defs demo_defs allowed_file_def ALLOWED_EXTENSIONS_def rsplit_last_def str_lower_def char_lower_def)

section \<open>The life of an image entry\<close>

text \<open>
  C4. Every entry of type image that \<open>process_docx\<close> adds to the index has the placeholder
  as its document and \<open>processed = False\<close>. A visit of the worker that succeeds found the
  entry unprocessed, made one vision call and one update, and leaves the entry with
  \<open>processed = True\<close>, the description returned by \<open>describe_image\<close> as its document and
  its source unchanged. Once an entry is processed, no number of sweeps, whatever the
  collaborators do, changes the entry or makes a vision call or an update for it; a visit
  of its artifact only unlinks the artifact.
\<close>

theorem image_entry_lifecycle:
  "(\<forall>x. x \<in> set (index (fst (process_docx en s path))) \<longrightarrow> x \<notin> set (index s) \<longrightarrow>
        m_type (metadata x) = Some ''image'' \<longrightarrow>
        document x = placeholder \<and> m_processed (metadata x) = Some False) \<and>
   (\<forall>s'. visit en s p = (s', Analysed) \<longrightarrow>
      (\<exists>e image_bytes image_b64 description.
         coll_lookup (index s) (stem p) = Some e \<and> \<not> is_processed (metadata e) \<and>
         map_of (queue s) p = Some image_bytes \<and>
         prepare_image_for_vision en image_bytes = Inr image_b64 \<and>
         describe_image en image_b64 = Inr description \<and>
         coll_lookup (index s') (stem p) =
           Some (e\<lparr>document := description,
                    metadata := \<lparr>m_source = m_source (metadata e), m_processed = Some True,
                                 m_type = Some ''image''\<rparr>\<rparr>) \<and>
         trace s' = trace s @
           [EvVision (stem p) image_b64,
            EvUpdate (stem p) description
              \<lparr>m_source = m_source (metadata e), m_processed = Some True, m_type = Some ''image''\<rparr>,
            EvUnlink p])) \<and>
   (\<forall>e. coll_lookup (index s) d = Some e \<longrightarrow> is_processed (metadata e) \<longrightarrow>
      coll_lookup (index (vision_worker ens s)) d = Some e \<and>
      (\<exists>new. trace (vision_worker ens s) = trace s @ new \<and> \<not> list_ex (touches d) new) \<and>
      (\<forall>q. stem q = d \<longrightarrow>
         index (fst (visit en s q)) = index s \<and> trace (fst (visit en s q)) = trace s @ [EvUnlink q]))"
proof (intro conjI allI impI)
  fix x
  assume "x \<in> set (index (fst (process_docx en s path)))" "x \<notin> set (index s)"
    and t: "m_type (metadata x) = Some ''image''"
  from process_docx_new[OF this(1,2)] t
  have "document x = placeholder \<and> metadata x = image_meta (basename path)"
    by (auto simp: text_meta_def)
  then show "document x = placeholder" "m_processed (metadata x) = Some False"
    by (simp_all add: image_meta_def)
next
  fix s'
  assume "visit en s p = (s', Analysed)"
  then show "\<exists>e image_bytes image_b64 description.
         coll_lookup (index s) (stem p) = Some e \<and> \<not> is_processed (metadata e) \<and>
         map_of (queue s) p = Some image_bytes \<and>
         prepare_image_for_vision en image_bytes = Inr image_b64 \<and>
         describe_image en image_b64 = Inr description \<and>
         coll_lookup (index s') (stem p) =
           Some (e\<lparr>document := description,
                    metadata := \<lparr>m_source = m_source (metadata e), m_processed = Some True,
                                 m_type = Some ''image''\<rparr>\<rparr>) \<and>
         trace s' = trace s @
           [EvVision (stem p) image_b64,
            EvUpdate (stem p) description
              \<lparr>m_source = m_source (metadata e), m_processed = Some True, m_type = Some ''image''\<rparr>,
            EvUnlink p]"
    by (rule visit_analysed)
next
  fix e
  assume a: "coll_lookup (index s) d = Some e" "is_processed (metadata e)"
  from vision_worker_terminal[OF a, of ens]
  show "coll_lookup (index (vision_worker ens s)) d = Some e"
    and "\<exists>new. trace (vision_worker ens s) = trace s @ new \<and> \<not> list_ex (touches d) new"
    by simp_all
  fix q
  assume "stem q = d"
  with visit_processed[of s q e en] a
  show "index (fst (visit en s q)) = index s" "trace (fst (visit en s q)) = trace s @ [EvUnlink q]"
    by simp_all
qed

theorem image_entry_lifecycle_witness:
  "(\<exists>x. coll_lookup (index (fst (process_docx env_ok demo ''./uploaded_docs/manual.docx'')))
           ''manual.docx_img_0'' = Some x \<and>
        document x = placeholder \<and> m_processed (metadata x) = Some False) \<and>
   coll_lookup (index (fst (visit env_ok demo ''b.docx_img_0.png''))) ''b.docx_img_0'' =
     Some \<lparr>eid = ''b.docx_img_0'', document = ''screen of b64:PNGB'',
           metadata = \<lparr>m_source = Some ''b.docx'', m_processed = Some True, m_type = Some ''image''\<rparr>\<rparr> \<and>
   coll_lookup (index (vision_worker [env_ok, env_vision_down] demo)) ''c.docx_img_0'' =
     Some processed_gear \<and>
   (\<exists>new. trace (vision_worker [env_ok, env_vision_down] demo) = trace demo @ new \<and>
          \<not> list_ex (touches ''c.docx_img_0'') new) \<and>
   trace (fst (visit env_ok demo ''c.docx_img_0.png'')) = trace demo @ [EvUnlink ''c.docx_img_0.png'']"
proof -
  note L = image_entry_lifecycle[of env_ok demo "''./uploaded_docs/manual.docx''"
      "''b.docx_img_0.png''" "''c.docx_img_0''" "[env_ok, env_vision_down]"]
  let ?x = "\<lparr>eid = ''manual.docx_img_0'', document = ''[Image queued for analysis]'',
             metadata = image_meta ''manual.docx''\<rparr>"
  have x1: "?x \<in> set (index (fst (process_docx env_ok demo ''./uploaded_docs/manual.docx'')))"
    by (simp add: run_defs demo_defs)
  have x2: "?x \<notin> set (index demo)" by (simp add: demo_def image_meta_def)
  have x3: "m_type (metadata ?x) = Some ''image''" by (simp add: image_meta_def)
  have x4: "coll_lookup (index (fst (process_docx env_ok demo ''./uploaded_docs/manual.docx'')))
              ''manual.docx_img_0'' = Some ?x"
    by (simp add: run_defs demo_defs)
  have "document ?x = placeholder \<and> m_processed (metadata ?x) = Some False"
    using L[THEN conjunct1, rule_format, OF x1 x2 x3] .
  with x4 have A: "\<exists>x. coll_lookup (index (fst (process_docx env_ok demo ''./uploaded_docs/manual.docx'')))
           ''manual.docx_img_0'' = Some x \<and>
        document x = placeholder \<and> m_processed (metadata x) = Some False"
    by blast
  obtain s' where v: "visit env_ok demo ''b.docx_img_0.png'' = (s', Analysed)"
    by (simp add: run_defs demo_defs)
  have st: "stem ''b.docx_img_0.png'' = ''b.docx_img_0''" by (simp add: stem_def)
  from L[THEN conjunct2, THEN conjunct1, rule_format, OF v]
  obtain e image_bytes image_b64 description where
    b: "coll_lookup (index demo) (stem ''b.docx_img_0.png'') = Some e"
       "map_of (queue demo) ''b.docx_img_0.png'' = Some image_bytes"
       "prepare_image_for_vision env_ok image_bytes = Inr image_b64"
       "describe_image env_ok image_b64 = Inr description"
       "coll_lookup (index s') (stem ''b.docx_img_0.png'') =
           Some (e\<lparr>document := description,
                    metadata := \<lparr>m_source = m_source (metadata e), m_processed = Some True,
                                 m_type = Some ''image''\<rparr>\<rparr>)"
    by blast
  have e: "e = \<lparr>eid = ''b.docx_img_0'', document = ''[Image queued for analysis]'',
          metadata = \<lparr>m_source = Some ''b.docx'', m_processed = Some False, m_type = Some ''image''\<rparr>\<rparr>"
    using b(1) by (simp add: st coll_lookup_def demo_def)
  have "image_bytes = ''PNGB''" using b(2) by (simp add: demo_def)
  then have "image_b64 = ''b64:PNGB''" using b(3) by (simp add: prepare_image_for_vision_def env_ok_def)
  then have "description = ''screen of b64:PNGB''"
    using b(4) by (simp add: describe_image_def env_ok_def str_strip_def is_space_def)
  then have B: "coll_lookup (index (fst (visit env_ok demo ''b.docx_img_0.png''))) ''b.docx_img_0'' =
     Some \<lparr>eid = ''b.docx_img_0'', document = ''screen of b64:PNGB'',
           metadata = \<lparr>m_source = Some ''b.docx'', m_processed = Some True, m_type = Some ''image''\<rparr>\<rparr>"
    using b(5) v e st by simp
  have c1: "coll_lookup (index demo) ''c.docx_img_0'' = Some processed_gear"
    by (simp add: coll_lookup_def demo_def processed_gear_def)
  have c2: "is_processed (metadata processed_gear)"
    by (simp add: is_processed_def processed_gear_def)
  note C = L[THEN conjunct2, THEN conjunct2, rule_format, OF c1 c2]
  have st2: "stem ''c.docx_img_0.png'' = ''c.docx_img_0''" by (simp add: stem_def)
  from C have C1: "coll_lookup (index (vision_worker [env_ok, env_vision_down] demo)) ''c.docx_img_0'' =
     Some processed_gear" by blast
  from C have C2: "\<exists>new. trace (vision_worker [env_ok, env_vision_down] demo) = trace demo @ new \<and>
          \<not> list_ex (touches ''c.docx_img_0'') new" by blast
  from C st2 have C3: "trace (fst (visit env_ok demo ''c.docx_img_0.png'')) = trace demo @ [EvUnlink ''c.docx_img_0.png'']"
    by blast
  show ?thesis using A B C1 C2 C3 by blast
qed

section \<open>Failures inside a sweep\<close>

text \<open>
  C5. Let the listed artifacts have distinct ids, and let \<open>a\<close> be a listed artifact with
  an unprocessed entry whose handling fails: Pillow raises on its bytes (a decode error),
  or the image is prepared and the vision call raises. Then the sweep still gives every
  listed artifact one outcome, in listing order; \<open>a\<close>'s outcome is the failure; \<open>a\<close> is
  still in the queue directory with its bytes and its entry is unchanged; every listed
  artifact \<open>b\<close> whose image is prepared, whose vision call succeeds and whose update is
  accepted ends the sweep with \<open>processed = True\<close> and the description, wherever it stands
  in the listing relative to \<open>a\<close>; and the worker's next turn lists \<open>a\<close> again and, when
  the collaborators then succeed for it, leaves \<open>a\<close>'s entry processed.
\<close>

theorem sweep_failure_isolation:
  assumes "distinct (map stem (glob_png (queue s)))"
    and "a \<in> set (glob_png (queue s))"
    and "coll_lookup (index s) (stem a) = Some ea" and "\<not> is_processed (metadata ea)"
    and "map_of (queue s) a = Some bytes_a"
    and "prepare_image_for_vision en bytes_a = Inl err \<or>
         (\<exists>b64_a. prepare_image_for_vision en bytes_a = Inr b64_a \<and>
                  describe_image en b64_a = Inl err)"
  shows "map fst (snd (sweep en s)) = glob_png (queue s) \<and>
         (a, Failed err) \<in> set (snd (sweep en s)) \<and>
         map_of (queue (fst (sweep en s))) a = Some bytes_a \<and>
         a \<in> set (glob_png (queue (fst (sweep en s)))) \<and>
         coll_lookup (index (fst (sweep en s))) (stem a) = Some ea \<and>
         (\<forall>b eb src bytes_b b64_b description.
            b \<in> set (glob_png (queue s)) \<longrightarrow>
            coll_lookup (index s) (stem b) = Some eb \<longrightarrow> \<not> is_processed (metadata eb) \<longrightarrow>
            m_source (metadata eb) = Some src \<longrightarrow>
            map_of (queue s) b = Some bytes_b \<longrightarrow>
            prepare_image_for_vision en bytes_b = Inr b64_b \<longrightarrow>
            describe_image en b64_b = Inr description \<longrightarrow>
            update_outcome en (stem b) description
              \<lparr>m_source = Some src, m_processed = Some True, m_type = Some ''image''\<rparr> = None \<longrightarrow>
            coll_lookup (index (fst (sweep en s))) (stem b) =
              Some (eb\<lparr>document := description,
                       metadata := \<lparr>m_source = Some src, m_processed = Some True,
                                    m_type = Some ''image''\<rparr>\<rparr>)) \<and>
         (\<forall>en2 src b64_a description.
            m_source (metadata ea) = Some src \<longrightarrow>
            prepare_image_for_vision en2 bytes_a = Inr b64_a \<longrightarrow>
            describe_image en2 b64_a = Inr description \<longrightarrow>
            update_outcome en2 (stem a) description
              \<lparr>m_source = Some src, m_processed = Some True, m_type = Some ''image''\<rparr> = None \<longrightarrow>
            a \<in> set (map fst (snd (sweep en2 (fst (sweep en s))))) \<and>
            coll_lookup (index (vision_worker [en, en2] s)) (stem a) =
              Some (ea\<lparr>document := description,
                       metadata := \<lparr>m_source = Some src, m_processed = Some True,
                                    m_type = Some ''image''\<rparr>\<rparr>))"
proof -
  let ?s' = "fst (sweep en s)"
  have names: "\<And>en s. map fst (snd (sweep en s)) = glob_png (queue s)"
    by (simp add: sweep_def sweep_over_names)
  from sweep_attempt_fails[OF assms]
  have f: "(a, Failed err) \<in> set (snd (sweep en s))"
    and q: "map_of (queue ?s') a = Some bytes_a"
    and i: "coll_lookup (index ?s') (stem a) = Some ea"
    by (simp_all add: sweep_def)
  have g: "a \<in> set (glob_png (queue ?s'))" using assms(2) q by (simp add: glob_png_member)
  have d': "distinct (map stem (glob_png (queue ?s')))"
    using sweep_over_keeps_distinct[OF assms(1)] by (simp add: sweep_def)
  have other: "coll_lookup (index ?s') (stem b) =
              Some (eb\<lparr>document := description,
                       metadata := \<lparr>m_source = Some src, m_processed = Some True,
                                    m_type = Some ''image''\<rparr>\<rparr>)"
    if "b \<in> set (glob_png (queue s))" "coll_lookup (index s) (stem b) = Some eb"
      "\<not> is_processed (metadata eb)" "m_source (metadata eb) = Some src"
      "map_of (queue s) b = Some bytes_b" "prepare_image_for_vision en bytes_b = Inr b64_b"
      "describe_image en b64_b = Inr description"
      "update_outcome en (stem b) description
         \<lparr>m_source = Some src, m_processed = Some True, m_type = Some ''image''\<rparr> = None"
    for b eb src bytes_b b64_b description
    using sweep_vision_success[OF assms(1) that] by (simp add: sweep_def)
  have again: "a \<in> set (map fst (snd (sweep en2 ?s'))) \<and>
            coll_lookup (index (vision_worker [en, en2] s)) (stem a) =
              Some (ea\<lparr>document := description,
                       metadata := \<lparr>m_source = Some src, m_processed = Some True,
                                    m_type = Some ''image''\<rparr>\<rparr>)"
    if "m_source (metadata ea) = Some src" "prepare_image_for_vision en2 bytes_a = Inr b64_a"
      "describe_image en2 b64_a = Inr description"
      "update_outcome en2 (stem a) description
         \<lparr>m_source = Some src, m_processed = Some True, m_type = Some ''image''\<rparr> = None"
    for en2 src b64_a description
  proof -
    have "a \<in> set (map fst (snd (sweep en2 ?s')))" using g by (simp only: names)
    moreover have "coll_lookup (index (fst (sweep en2 ?s'))) (stem a) =
              Some (ea\<lparr>document := description,
                       metadata := \<lparr>m_source = Some src, m_processed = Some True,
                                    m_type = Some ''image''\<rparr>\<rparr>)"
      using sweep_vision_success[OF d' g i assms(4) that(1) q that(2,3,4)] by (simp add: sweep_def)
    ultimately show ?thesis by simp
  qed
  show ?thesis using names f q g i other again by blast
qed

theorem sweep_failure_isolation_witness:
  "(''b.docx_img_0.png'', Failed DecodeError) \<in> set (snd (sweep env_decode_down demo)) \<and>
   map_of (queue (fst (sweep env_decode_down demo))) ''b.docx_img_0.png'' = Some ''PNGB'' \<and>
   coll_lookup (index (fst (sweep env_decode_down demo))) ''a.docx_img_0'' =
     Some \<lparr>eid = ''a.docx_img_0'', document = ''screen of b64:PNGA'',
           metadata = \<lparr>m_source = Some ''a.docx'', m_processed = Some True, m_type = Some ''image''\<rparr>\<rparr> \<and>
   coll_lookup (index (vision_worker [env_decode_down, env_ok] demo)) ''b.docx_img_0'' =
     Some \<lparr>eid = ''b.docx_img_0'', document = ''screen of b64:PNGB'',
           metadata = \<lparr>m_source = Some ''b.docx'', m_processed = Some True, m_type = Some ''image''\<rparr>\<rparr> \<and>
   (''b.docx_img_0.png'', Failed VisionError) \<in> set (snd (sweep env_vision_down demo)) \<and>
   ''b.docx_img_0.png'' \<in> set (glob_png (queue (fst (sweep env_vision_down demo))))"
proof -
  let ?a = "''b.docx_img_0.png''" and ?b = "''a.docx_img_0.png''"
  let ?ea = "\<lparr>eid = ''b.docx_img_0'', document = ''[Image queued for analysis]'',
          metadata = \<lparr>m_source = Some ''b.docx'', m_processed = Some False, m_type = Some ''image''\<rparr>\<rparr>"
  let ?eb = "\<lparr>eid = ''a.docx_img_0'', document = ''[Image queued for analysis]'',
          metadata = \<lparr>m_source = Some ''a.docx'', m_processed = Some False, m_type = Some ''image''\<rparr>\<rparr>"
  have g: "glob_png (queue demo) =
     [''b.docx_img_0.png'', ''ghost_img_0.png'', ''a.docx_img_0.png'', ''c.docx_img_0.png'']"
    by (simp add: glob_png_def demo_def)
  have d: "distinct (map stem (glob_png (queue demo)))" unfolding g by (simp add: stem_def)
  have sa: "stem ?a = ''b.docx_img_0''" and sb: "stem ?b = ''a.docx_img_0''"
    by (simp_all add: stem_def)
  have a: "?a \<in> set (glob_png (queue demo))" "coll_lookup (index demo) (stem ?a) = Some ?ea"
      "\<not> is_processed (metadata ?ea)" "map_of (queue demo) ?a = Some ''PNGB''"
    unfolding g sa by (simp_all add: coll_lookup_def demo_def is_processed_def)
  have fd: "prepare_image_for_vision env_decode_down ''PNGB'' = Inl DecodeError \<or>
         (\<exists>b64_a. prepare_image_for_vision env_decode_down ''PNGB'' = Inr b64_a \<and>
                  describe_image env_decode_down b64_a = Inl DecodeError)"
    by (simp add: prepare_image_for_vision_def env_decode_down_def env_ok_def)
  have fv: "prepare_image_for_vision env_vision_down ''PNGB'' = Inl VisionError \<or>
         (\<exists>b64_a. prepare_image_for_vision env_vision_down ''PNGB'' = Inr b64_a \<and>
                  describe_image env_vision_down b64_a = Inl VisionError)"
    by (simp add: prepare_image_for_vision_def describe_image_def env_vision_down_def env_ok_def)
  note D = sweep_failure_isolation[OF d a fd]
  note V = sweep_failure_isolation[OF d a fv]
  have b: "?b \<in> set (glob_png (queue demo))" "coll_lookup (index demo) (stem ?b) = Some ?eb"
      "\<not> is_processed (metadata ?eb)" "m_source (metadata ?eb) = Some ''a.docx''"
      "map_of (queue demo) ?b = Some ''PNGA''"
      "prepare_image_for_vision env_decode_down ''PNGA'' = Inr ''b64:PNGA''"
      "describe_image env_decode_down ''b64:PNGA'' = Inr ''screen of b64:PNGA''"
      "update_outcome env_decode_down (stem ?b) ''screen of b64:PNGA''
         \<lparr>m_source = Some ''a.docx'', m_processed = Some True, m_type = Some ''image''\<rparr> = None"
    unfolding g sb
    by (simp_all add: coll_lookup_def demo_def is_processed_def prepare_image_for_vision_def
        describe_image_def env_decode_down_def env_ok_def str_strip_def is_space_def)
  have r: "m_source (metadata ?ea) = Some ''b.docx''"
      "prepare_image_for_vision env_ok ''PNGB'' = Inr ''b64:PNGB''"
      "describe_image env_ok ''b64:PNGB'' = Inr ''screen of b64:PNGB''"
      "update_outcome env_ok (stem ?a) ''screen of b64:PNGB''
         \<lparr>m_source = Some ''b.docx'', m_processed = Some True, m_type = Some ''image''\<rparr> = None"
    by (simp_all add: prepare_image_for_vision_def describe_image_def env_ok_def str_strip_def
        is_space_def)
  have 1: "(?a, Failed DecodeError) \<in> set (snd (sweep env_decode_down demo))" using D by blast
  have 2: "map_of (queue (fst (sweep env_decode_down demo))) ?a = Some ''PNGB''" using D by blast
  have "coll_lookup (index (fst (sweep env_decode_down demo))) (stem ?b) =
          Some (?eb\<lparr>document := ''screen of b64:PNGA'',
                    metadata := \<lparr>m_source = Some ''a.docx'', m_processed = Some True,
                                 m_type = Some ''image''\<rparr>\<rparr>)"
    using D[THEN conjunct2, THEN conjunct2, THEN conjunct2, THEN conjunct2, THEN conjunct2,
            THEN conjunct1, rule_format, OF b] .
  then have 3: "coll_lookup (index (fst (sweep env_decode_down demo))) ''a.docx_img_0'' =
     Some \<lparr>eid = ''a.docx_img_0'', document = ''screen of b64:PNGA'',
           metadata = \<lparr>m_source = Some ''a.docx'', m_processed = Some True, m_type = Some ''image''\<rparr>\<rparr>"
    by (simp add: sb)
  have "coll_lookup (index (vision_worker [env_decode_down, env_ok] demo)) (stem ?a) =
          Some (?ea\<lparr>document := ''screen of b64:PNGB'',
                    metadata := \<lparr>m_source = Some ''b.docx'', m_processed = Some True,
                                 m_type = Some ''image''\<rparr>\<rparr>)"
    using D[THEN conjunct2, THEN conjunct2, THEN conjunct2, THEN conjunct2, THEN conjunct2,
            THEN conjunct2, rule_format, OF r] by blast
  then have 4: "coll_lookup (index (vision_worker [env_decode_down, env_ok] demo)) ''b.docx_img_0'' =
     Some \<lparr>eid = ''b.docx_img_0'', document = ''screen of b64:PNGB'',
           metadata = \<lparr>m_source = Some ''b.docx'', m_processed = Some True, m_type = Some ''image''\<rparr>\<rparr>"
    by (simp add: sa)
  have 5: "(?a, Failed VisionError) \<in> set (snd (sweep env_vision_down demo))" using V by blast
  have 6: "?a \<in> set (glob_png (queue (fst (sweep env_vision_down demo))))" using V by blast
  show ?thesis using 1 2 3 4 5 6 by blast
qed

section \<open>Artifacts without an entry\<close>

text \<open>
  C6, as amended. An artifact whose id has no entry in the index is skipped by the
  worker: its visit changes nothing and makes no call, every sweep gives it the outcome
  \<open>Orphan\<close>, and after the sweep the artifact is still in the queue directory with the
  same bytes and still has no entry.
\<close>

theorem orphan_artifact_skipped:
  assumes "coll_get_id (index s) (stem p) = []" and "p \<in> set (glob_png (queue s))"
  shows "visit en s p = (s, Orphan) \<and>
         (p, Orphan) \<in> set (snd (sweep en s)) \<and>
         map_of (queue (fst (sweep en s))) p = map_of (queue s) p \<and>
         p \<in> set (glob_png (queue (fst (sweep en s)))) \<and>
         coll_get_id (index (fst (sweep en s))) (stem p) = []"
proof -
  have n: "coll_lookup (index s) (stem p) = None" using assms(1) by (simp add: coll_get_id_empty)
  note o = sweep_over_orphan[OF n, of en "glob_png (queue s)"]
  have "p \<in> set (map fst (snd (sweep en s)))"
    using assms(2) by (simp add: sweep_def sweep_over_names del: set_map)
  then obtain out where m: "(p, out) \<in> set (snd (sweep en s))" by force
  then have "out = Orphan" using o by (simp add: sweep_def)
  with m have 1: "(p, Orphan) \<in> set (snd (sweep en s))" by simp
  have 2: "map_of (queue (fst (sweep en s))) p = map_of (queue s) p" using o by (simp add: sweep_def)
  then have 3: "p \<in> set (glob_png (queue (fst (sweep en s))))"
    using assms(2) by (simp add: glob_png_member)
  have 4: "coll_get_id (index (fst (sweep en s))) (stem p) = []"
    using o by (simp add: sweep_def coll_get_id_empty)
  show ?thesis using visit_orphan[OF n, of en] 1 2 3 4 by simp
qed

theorem orphan_artifact_skipped_witness:
  "visit env_ok demo ''ghost_img_0.png'' = (demo, Orphan) \<and>
   ''ghost_img_0.png'' \<in> set (glob_png (queue (fst (sweep env_ok demo))))"
proof -
  have "coll_get_id (index demo) (stem ''ghost_img_0.png'') = []"
    by (simp add: coll_get_id_def coll_lookup_def stem_def demo_def)
  moreover have "''ghost_img_0.png'' \<in> set (glob_png (queue demo))"
    by (simp add: glob_png_def demo_def)
  ultimately show ?thesis using orphan_artifact_skipped[of demo "''ghost_img_0.png''" env_ok] by blast
qed

text \<open>In the example state the artifact without an entry is the only one a sweep with
  working collaborators leaves behind.\<close>

theorem orphan_artifact_counterexample:
  "coll_get_id (index demo) (stem ''ghost_img_0.png'') = [] \<and>
   ''ghost_img_0.png'' \<in> set (glob_png (queue demo)) \<and>
   (''ghost_img_0.png'', Orphan) \<in> set (snd (sweep env_ok demo)) \<and>
   queue (fst (sweep env_ok demo)) = [(''ghost_img_0.png'', ''PNGG'')]"
  by (simp add: run_defs demo_defs)

section \<open>Text passages\<close>

text \<open>
  C7, as amended. For a document that parses, is not yet in the index and has non-empty
  extracted text \<open>t\<close> of length \<open>L\<close>: the number of chunks is \<open>L / 1800\<close> rounded up; chunk
  \<open>i\<close> is the text from character \<open>1800 * i\<close>, at most 2000 characters long, with id
  \<open>file_name_t_i\<close> and metadata source \<open>file_name\<close>, type text; what chunk \<open>i\<close> holds beyond
  its first 1800 characters is the beginning of chunk \<open>i + 1\<close>, which is
  \<open>min 200 (L - 1800 * (i + 1))\<close> characters: 200, or fewer when the last chunk is
  shorter than 200; the chunks cut to their first 1800 characters concatenate to \<open>t\<close>;
  and the first call \<open>process_docx\<close> makes is the add of exactly these ids, chunks and
  metadata.
\<close>

theorem process_docx_chunking:
  assumes "DocxDocument (uploads s) path = Inr doc"
    and "coll_get_source_ids (index s) (basename path) = []"
    and "extract_text (paragraphs doc) = t" and "t \<noteq> []"
  shows "length (chunks_of t) = (length t + 1799) div 1800 \<and>
         (\<forall>i<length (chunks_of t).
            chunks_of t ! i = take 2000 (drop (1800 * i) t) \<and>
            text_ids (basename path) (length (chunks_of t)) ! i =
              basename path @ ''_t_'' @ str_of_nat i \<and>
            replicate (length (chunks_of t)) (text_meta (basename path)) ! i =
              \<lparr>m_source = Some (basename path), m_processed = None, m_type = Some ''text''\<rparr>) \<and>
         (\<forall>i. Suc i < length (chunks_of t) \<longrightarrow>
            drop 1800 (chunks_of t ! i) = take 200 (chunks_of t ! Suc i) \<and>
            length (take 200 (chunks_of t ! Suc i)) = min 200 (length t - 1800 * Suc i)) \<and>
         concat (map (take 1800) (chunks_of t)) = t \<and>
         (\<exists>rest. trace (fst (process_docx en s path)) =
            trace s @
            EvAdd (text_ids (basename path) (length (chunks_of t))) (chunks_of t)
              (replicate (length (chunks_of t)) (text_meta (basename path))) # rest)"
proof (intro conjI allI impI)
  show "length (chunks_of t) = (length t + 1799) div 1800" by (rule length_chunks_of)
  show "concat (map (take 1800) (chunks_of t)) = t" by (rule chunks_reconstruct)
  show "\<exists>rest. trace (fst (process_docx en s path)) =
            trace s @
            EvAdd (text_ids (basename path) (length (chunks_of t))) (chunks_of t)
              (replicate (length (chunks_of t)) (text_meta (basename path))) # rest"
    using process_docx_text_add[OF assms(1,2), of en] assms(3) by simp
next
  fix i
  assume i: "i < length (chunks_of t)"
  show "chunks_of t ! i = take 2000 (drop (1800 * i) t)" by (rule nth_chunks_of[OF i])
  show "text_ids (basename path) (length (chunks_of t)) ! i = basename path @ ''_t_'' @ str_of_nat i"
    by (rule text_ids_nth[OF i])
  show "replicate (length (chunks_of t)) (text_meta (basename path)) ! i =
              \<lparr>m_source = Some (basename path), m_processed = None, m_type = Some ''text''\<rparr>"
    using i by (simp add: text_meta_def)
next
  fix i
  assume i: "Suc i < length (chunks_of t)"
  show "drop 1800 (chunks_of t ! i) = take 200 (chunks_of t ! Suc i)"
    by (rule chunks_overlap(1)[OF i])
  show "length (take 200 (chunks_of t ! Suc i)) = min 200 (length t - 1800 * Suc i)"
    by (rule chunks_overlap(2)[OF i])
qed

theorem process_docx_chunking_witness:
  "length (chunks_of (replicate 1900 CHR ''a'')) = 2 \<and>
   text_ids ''long.docx'' (length (chunks_of (replicate 1900 CHR ''a''))) ! 1 = ''long.docx_t_1'' \<and>
   drop 1800 (chunks_of (replicate 1900 CHR ''a'') ! 0) = take 200 (chunks_of (replicate 1900 CHR ''a'') ! 1) \<and>
   length (take 200 (chunks_of (replicate 1900 CHR ''a'') ! 1)) = 100 \<and>
   concat (map (take 1800) (chunks_of (replicate 1900 CHR ''a''))) = replicate 1900 CHR ''a''"
proof -
  let ?p = "''./uploaded_docs/long.docx''" and ?t = "replicate 1900 CHR ''a''"
  have b: "basename ?p = ''long.docx''" by (simp add: basename_def)
  have 1: "DocxDocument (uploads demo) ?p = Inr long_manual" by (simp add: DocxDocument_def demo_def)
  have 2: "coll_get_source_ids (index demo) (basename ?p) = []"
    by (simp add: basename_def coll_get_source_ids_def demo_def)
  have 3: "extract_text (paragraphs long_manual) = ?t"
    by (simp add: long_manual_def extract_text_def str_strip_def is_space_def)
  have 4: "?t \<noteq> []" by simp
  note L = process_docx_chunking[OF 1 2 3 4, of env_ok]
  from L have n: "length (chunks_of ?t) = 2" by simp
  from L have i: "\<forall>i<length (chunks_of ?t). text_ids (basename ?p) (length (chunks_of ?t)) ! i =
              basename ?p @ ''_t_'' @ str_of_nat i" by blast
  have A: "text_ids ''long.docx'' (length (chunks_of ?t)) ! 1 = ''long.docx_t_1''"
    using i[rule_format, of 1] n b by (simp add: str_of_nat.simps)
  from L have o: "\<forall>i. Suc i < length (chunks_of ?t) \<longrightarrow>
            drop 1800 (chunks_of ?t ! i) = take 200 (chunks_of ?t ! Suc i) \<and>
            length (take 200 (chunks_of ?t ! Suc i)) = min 200 (length ?t - 1800 * Suc i)" by blast
  have B: "drop 1800 (chunks_of ?t ! 0) = take 200 (chunks_of ?t ! 1) \<and>
           length (take 200 (chunks_of ?t ! 1)) = 100"
    using o[rule_format, of 0] n by simp
  from L have C: "concat (map (take 1800) (chunks_of ?t)) = ?t" by blast
  show ?thesis using n A B C by blast
qed

text \<open>A text of 1900 characters gives two chunks that share 100 characters, not 200.\<close>

theorem chunking_overlap_counterexample:
  "length (chunks_of (replicate 1900 CHR ''a'')) = 2 \<and>
   chunks_of (replicate 1900 CHR ''a'') ! 0 = replicate 1900 CHR ''a'' \<and>
   chunks_of (replicate 1900 CHR ''a'') ! 1 = replicate 100 CHR ''a'' \<and>
   drop 1800 (chunks_of (replicate 1900 CHR ''a'') ! 0) = replicate 100 CHR ''a''"
  by (simp add: chunks_of_def py_range_closed py_slice_def)

section \<open>A document without text\<close>

text \<open>
  C10. For a document that parses, is not yet in the index and whose paragraphs are all
  empty or made of whitespace only, the extracted text is empty, the list of chunks is
  empty, no passage id is generated, and the first call \<open>process_docx\<close> makes is the bulk
  add with empty ids, documents and metadata; whatever is done for embedded images comes
  after it.
\<close>

theorem process_docx_blank_document:
  assumes "DocxDocument (uploads s) path = Inr doc"
    and "coll_get_source_ids (index s) (basename path) = []"
    and "\<forall>p\<in>set (paragraphs doc). \<forall>c\<in>set p. is_space c"
  shows "extract_text (paragraphs doc) = [] \<and>
         chunks_of (extract_text (paragraphs doc)) = [] \<and>
         text_ids (basename path) (length (chunks_of (extract_text (paragraphs doc)))) = [] \<and>
         (\<exists>rest. trace (fst (process_docx en s path)) = trace s @ EvAdd [] [] [] # rest)"
proof -
  have t: "extract_text (paragraphs doc) = []" using assms(3) by (rule extract_text_blank)
  have c: "chunks_of (extract_text (paragraphs doc)) = []" by (simp add: t chunks_of_empty)
  have i: "text_ids (basename path) (length (chunks_of (extract_text (paragraphs doc)))) = []"
    by (simp add: c text_ids_def)
  from process_docx_text_add[OF assms(1,2), of en]
  have "\<exists>rest. trace (fst (process_docx en s path)) = trace s @ EvAdd [] [] [] # rest"
    by (simp add: c text_ids_def)
  then show ?thesis using t c i by simp
qed

theorem process_docx_blank_document_witness:
  "extract_text (paragraphs blank_manual) = [] \<and>
   (\<exists>rest. trace (fst (process_docx env_ok demo ''./uploaded_docs/blank.docx'')) =
      trace demo @ EvAdd [] [] [] # rest) \<and>
   trace (fst (process_docx env_ok demo ''./uploaded_docs/blank.docx'')) =
     [EvAdd [] [] [], EvWrite ''blank.docx_img_0.png'',
      EvAdd [''blank.docx_img_0''] [''[Image queued for analysis]'']
        [\<lparr>m_source = Some ''blank.docx'', m_processed = Some False, m_type = Some ''image''\<rparr>]]"
proof -
  let ?p = "''./uploaded_docs/blank.docx''"
  have 1: "DocxDocument (uploads demo) ?p = Inr blank_manual" by (simp add: DocxDocument_def demo_def)
  have 2: "coll_get_source_ids (index demo) (basename ?p) = []"
    by (simp add: basename_def coll_get_source_ids_def demo_def)
  have 3: "\<forall>p\<in>set (paragraphs blank_manual). \<forall>c\<in>set p. is_space c"
    by (simp add: blank_manual_def is_space_def)
  note L = process_docx_blank_document[OF 1 2 3, of env_ok]
  have T: "trace (fst (process_docx env_ok demo ?p)) =
     [EvAdd [] [] [], EvWrite ''blank.docx_img_0.png'',
      EvAdd [''blank.docx_img_0''] [''[Image queued for analysis]'']
        [\<lparr>m_source = Some ''blank.docx'', m_processed = Some False, m_type = Some ''image''\<rparr>]]"
    by (simp add: run_defs demo_defs py_range.simps)
  show ?thesis using L T by blast
qed

section \<open>The extension check of the upload endpoint\<close>

text \<open>
  C9. A file name is allowed exactly when it has a dot and the text after its last dot,
  in lower case, is \<open>docx\<close>. An upload with a file part is answered 400 exactly when its
  file name is not allowed, and then the state is unchanged. \<open>Manual.DOCX\<close> is allowed;
  \<open>docx\<close> and \<open>a.docx.exe\<close> are not.
\<close>

theorem upload_file_extension_gate:
  "allowed_file fname =
     (\<exists>pre suf. fname = pre @ [CHR ''.''] @ suf \<and> CHR ''.'' \<notin> set suf \<and> str_lower suf = ''docx'') \<and>
   (fst (snd (upload_file en s (Some (fname, content)))) \<noteq> 400) = allowed_file fname \<and>
   (\<not> allowed_file fname \<longrightarrow> fst (upload_file en s (Some (fname, content))) = s) \<and>
   allowed_file ''Manual.DOCX'' \<and> \<not> allowed_file ''docx'' \<and> \<not> allowed_file ''a.docx.exe''"
proof (intro conjI impI)
  show "allowed_file fname =
     (\<exists>pre suf. fname = pre @ [CHR ''.''] @ suf \<and> CHR ''.'' \<notin> set suf \<and> str_lower suf = ''docx'')"
    by (rule allowed_file_iff)
  show "(fst (snd (upload_file en s (Some (fname, content)))) \<noteq> 400) = allowed_file fname"
    using upload_code_400[of en s fname content] by simp
  show "fst (upload_file en s (Some (fname, content))) = s" if "\<not> allowed_file fname"
    using that by (rule upload_rejected_state)
  show "allowed_file ''Manual.DOCX''"
    unfolding allowed_file_def ALLOWED_EXTENSIONS_def rsplit_last_def str_lower_def by code_simp
  show "\<not> allowed_file ''docx''" by (simp add: allowed_file_def)
  show "\<not> allowed_file ''a.docx.exe''"
    by (simp add: allowed_file_def ALLOWED_EXTENSIONS_def rsplit_last_def str_lower_def char_lower_def)
qed

theorem upload_file_extension_gate_witness:
  "\<not> allowed_file ''notes.txt'' \<and>
   upload_file env_ok demo (Some (''notes.txt'', Corrupt)) =
     (demo, 400, Error ''Invalid file type. Only .docx files are allowed.'')"
proof -
  have n: "\<not> allowed_file ''notes.txt''"
    by (simp add: allowed_file_def ALLOWED_EXTENSIONS_def rsplit_last_def str_lower_def char_lower_def)
  have "fst (upload_file env_ok demo (Some (''notes.txt'', Corrupt))) = demo"
    using upload_file_extension_gate[of "''notes.txt''" env_ok demo Corrupt] n by blast
  moreover have "snd (upload_file env_ok demo (Some (''notes.txt'', Corrupt))) =
      (400, Error ''Invalid file type. Only .docx files are allowed.'')"
    using n by (simp add: upload_file_def)
  ultimately show ?thesis using n by (metis prod.collapse)
qed

section \<open>Upstream failures while answering\<close>

text \<open>
  C8. An upstream failure while answering is meant to reach the caller as the 500 error
  response. The handler returns the streaming response before the generator has run, so
  the similarity query fails while the response is being streamed: the handler's answer
  is the 200 event stream, whose generator raises after its single query call.
\<close>

theorem ask_question_upstream_failure:
  "ask_question env_query_down (Some ''How do I post?'') =
    (200, EventStream \<lparr>frames = [], raised = Some QueryError, calls = [CallQuery ''How do I post?'']\<rparr>)"
  by (simp add: ask_question_def ask_try_def generate_def env_query_down_def env_ok_def)

text \<open>No non-empty question is answered 500, and the generator calls each upstream
  service at most once.\<close>

lemma ask_question_status:
  "fst (ask_question en data) = (if data = None \<or> data = Some [] then 400 else 200)"
  by (auto simp: ask_question_def ask_try_def Let_def split: option.splits)

lemma generate_calls_once:
  "length (calls (generate en q)) \<le> 2 \<and> distinct (calls (generate en q))"
  by (auto simp: generate_def Let_def split: sum.splits prod.splits option.splits)

end
